theory Spec2Isabelle
  imports
    Main
    "HOL-Library.Sublist"
    "HOL-Library.AList"
    "HOL-Library.Char_ord"
    "HOL-Library.List_Lexorder"
    "HOL-Library.Option_ord"
    "HOL-Library.Product_Lexorder"
    "HOL-Library.Word"
begin

section \<open>Paths\<close>

text \<open>
  A \<^verbatim>\<open>pathlib.Path\<close> on POSIX is a root flag and a list of components.  Parsing a string
  splits it at \<^verbatim>\<open>/\<close> and drops the empty and the \<^verbatim>\<open>.\<close> components; a \<^verbatim>\<open>..\<close> component
  is kept.  (A root written with exactly two slashes is kept apart by pathlib and
  collapses to the ordinary root on \<^verbatim>\<open>resolve()\<close>; no function below looks at it before
  resolving, so it is read as the ordinary root.)
\<close>

record ppath =
  rooted :: bool
  parts :: "string list"

fun split_on :: "char \<Rightarrow> string \<Rightarrow> string list" where
  "split_on c [] = [[]]"
| "split_on c (x # xs) =
     (if x = c then [] # split_on c xs
      else (case split_on c xs of [] \<Rightarrow> [[x]] | w # ws \<Rightarrow> (x # w) # ws))"

definition Path :: "string \<Rightarrow> ppath" where
  "Path s =
     \<lparr> rooted = (case s of [] \<Rightarrow> False | c # _ \<Rightarrow> c = CHR ''/''),
       parts = filter (\<lambda>x. x \<noteq> [] \<and> x \<noteq> ''.'') (split_on CHR ''/'' s) \<rparr>"

text \<open>\<^verbatim>\<open>a / b\<close>: an absolute right operand replaces the left one.\<close>

definition joinpath :: "ppath \<Rightarrow> ppath \<Rightarrow> ppath" where
  "joinpath a b = (if rooted b then b else a\<lparr>parts := parts a @ parts b\<rparr>)"

definition name :: "ppath \<Rightarrow> string" where
  "name p = (if parts p = [] then [] else last (parts p))"

definition parent :: "ppath \<Rightarrow> ppath" where
  "parent p = p\<lparr>parts := butlast (parts p)\<rparr>"

text \<open>\<^verbatim>\<open>re.sub(r"[^A-Za-z]", "", s or "")\<close>: keeps the ASCII letters, in order.\<close>

definition is_letter :: "char \<Rightarrow> bool" where
  "is_letter c \<longleftrightarrow>
     (CHR ''A'' \<le> c \<and> c \<le> CHR ''Z'') \<or> (CHR ''a'' \<le> c \<and> c \<le> CHR ''z'')"

definition letters_only :: "string \<Rightarrow> string" where
  "letters_only s = filter is_letter s"

section \<open>The state code of a dataset directory\<close>

text \<open>
  \<^verbatim>\<open>process_csv_dir\<close> of \<^verbatim>\<open>datasources/cleaning/concat_with_join_legiscan.py\<close>:
  \<^verbatim>\<open>state_code = letters_only(csv_dir.parent.parent.name)\<close>.
\<close>

definition state_code :: "ppath \<Rightarrow> string" where
  "state_code csv_dir = letters_only (name (parent (parent csv_dir)))"

text \<open>
  \<^verbatim>\<open>process_csv_dir\<close> of \<^verbatim>\<open>scripts/join_legiscan_csvs.py\<close>:
  \<^verbatim>\<open>state_code = csv_dir.parent.parent.name\<close>, with no call of \<^verbatim>\<open>letters_only\<close>.
\<close>

definition state_code_join_script :: "ppath \<Rightarrow> string" where
  "state_code_join_script csv_dir = name (parent (parent csv_dir))"

section \<open>Exceptions\<close>

text \<open>
  The exceptions the modelled functions raise or let through.  \<^verbatim>\<open>UnsafeEntry f\<close> is the
  \<^verbatim>\<open>RuntimeError\<close> that \<^verbatim>\<open>safe_extract_zip\<close> raises with the message
  \<^verbatim>\<open>Unsafe path detected in zip (zip-slip): f\<close>; \<^verbatim>\<open>LibraryError\<close> is an exception raised
  inside a library call (\<^verbatim>\<open>zipfile\<close>, \<^verbatim>\<open>csv\<close>, \<^verbatim>\<open>pandas\<close>, a decoder), named by its message.
  All of them are instances of Python's \<^verbatim>\<open>Exception\<close>.
\<close>

datatype error =
    UnsafeEntry string
  | FileNotFoundError
  | FileExistsError
  | NotADirectoryError
  | IsADirectoryError
  | OSError
  | ValueError
  | IndexError
  | StopIteration
  | LibraryError string

section \<open>Aggregate mode of the corpus builder\<close>

text \<open>
  \<^verbatim>\<open>DataFrame.duplicated()\<close> marks a row that is equal (in every column) to a row before
  it; \<^verbatim>\<open>drop_duplicates()\<close> keeps the rows that are not marked, in their order.
\<close>

fun duplicated :: "'a list \<Rightarrow> 'a list \<Rightarrow> bool list" where
  "duplicated seen [] = []"
| "duplicated seen (r # rs) = (r \<in> set seen) # duplicated (r # seen) rs"

definition drop_duplicates :: "'a list \<Rightarrow> 'a list" where
  "drop_duplicates rows = map fst (filter (\<lambda>(r, d). \<not> d) (zip rows (duplicated [] rows)))"

text \<open>
  \<^verbatim>\<open>scripts/concat_legiscan_combined.py\<close>.  The argument lists, for the sorted input files,
  what \<^verbatim>\<open>pd.read_csv\<close> gave: the rows of the frame, or the exception that the loop reports
  and skips.  \<^verbatim>\<open>pd.concat\<close> puts the frames' rows one after the other.
\<close>

datatype 'r dedup_outcome =
    NothingToConcatenate
  | Written (rows_written: "'r list") (before: nat) (after: nat) (removed: int)

definition concat_legiscan_combined :: "(error + 'r list) list \<Rightarrow> 'r dedup_outcome" where
  "concat_legiscan_combined reads =
     (let all_bills = [df. Inr df \<leftarrow> reads] in
      if all_bills = [] then NothingToConcatenate
      else
        let combined = concat all_bills;
            before = length combined;
            combined' = drop_duplicates combined;
            after = length combined'
        in Written combined' before after (int before - int after))"

section \<open>The file system\<close>

text \<open>
  \<^verbatim>\<open>str.endswith\<close>.
\<close>

definition endswith :: "string \<Rightarrow> string \<Rightarrow> bool" where
  "endswith s t \<longleftrightarrow> suffix t s"

text \<open>
  \<^verbatim>\<open>Path.resolve()\<close> on a file system without symbolic links: the path is read against the
  working directory when it is relative, and a \<^verbatim>\<open>..\<close> component removes the component
  before it (at the root it is dropped).  The result is the list of the components of an
  absolute path; \<^verbatim>\<open>abs_path\<close> reads such a list as a \<^verbatim>\<open>Path\<close> again.  Every access of the
  operating system to a path goes through \<^verbatim>\<open>resolve\<close>.
\<close>

definition normalise :: "string list \<Rightarrow> string list" where
  "normalise cs = foldl (\<lambda>acc c. if c = ''..'' then butlast acc else acc @ [c]) [] cs"

definition resolve :: "string list \<Rightarrow> ppath \<Rightarrow> string list" where
  "resolve cwd p = normalise ((if rooted p then [] else cwd) @ parts p)"

definition abs_path :: "string list \<Rightarrow> ppath" where
  "abs_path cs = \<lparr> rooted = True, parts = cs \<rparr>"

text \<open>
  \<^verbatim>\<open>is_within_directory\<close>: \<^verbatim>\<open>target.resolve().relative_to(base.resolve())\<close> raises
  \<^verbatim>\<open>ValueError\<close>, caught as \<^verbatim>\<open>False\<close>, unless the components of the base are a prefix of the
  target's.
\<close>

definition is_within_directory :: "string list \<Rightarrow> ppath \<Rightarrow> ppath \<Rightarrow> bool" where
  "is_within_directory cwd base target \<longleftrightarrow> prefix (resolve cwd base) (resolve cwd target)"

text \<open>
  The file system maps the component list of an absolute path to a directory or to a file
  with its bytes; the first binding of a path counts, and the root is a directory.
\<close>

datatype node = Dir | File string

type_synonym fs = "(string list \<times> node) list"

definition node_at :: "fs \<Rightarrow> string list \<Rightarrow> node option" where
  "node_at fs p = (if p = [] then Some Dir else map_of fs p)"

definition path_exists :: "fs \<Rightarrow> string list \<Rightarrow> bool" where
  "path_exists fs p \<longleftrightarrow> node_at fs p \<noteq> None"

definition is_dir :: "fs \<Rightarrow> string list \<Rightarrow> bool" where
  "is_dir fs p \<longleftrightarrow> node_at fs p = Some Dir"

definition is_file :: "fs \<Rightarrow> string list \<Rightarrow> bool" where
  "is_file fs p \<longleftrightarrow> (case node_at fs p of Some (File _) \<Rightarrow> True | _ \<Rightarrow> False)"

text \<open>
  The kernel's walk to the directory that holds a path: the first component that is
  missing or is a file decides the error.
\<close>

fun walk_error :: "fs \<Rightarrow> string list \<Rightarrow> string list \<Rightarrow> error option" where
  "walk_error fs cur [] = None"
| "walk_error fs cur (c # cs) =
     (case node_at fs (cur @ [c]) of
        None \<Rightarrow> Some FileNotFoundError
      | Some (File _) \<Rightarrow> Some NotADirectoryError
      | Some Dir \<Rightarrow> walk_error fs (cur @ [c]) cs)"

text \<open>\<^verbatim>\<open>os.mkdir\<close>.\<close>

definition os_mkdir :: "fs \<Rightarrow> string list \<Rightarrow> error + fs" where
  "os_mkdir fs p =
     (case walk_error fs [] (butlast p) of
        Some e \<Rightarrow> Inl e
      | None \<Rightarrow>
          (case node_at fs p of
             Some _ \<Rightarrow> Inl FileExistsError
           | None \<Rightarrow> Inr (AList.update p Dir fs)))"

text \<open>
  \<^verbatim>\<open>Path.mkdir(parents=True, exist_ok=True)\<close>: on \<^verbatim>\<open>FileNotFoundError\<close> it makes the parent
  the same way and then the directory itself (\<^verbatim>\<open>parents=False, exist_ok=True\<close>); any other
  \<^verbatim>\<open>OSError\<close> is swallowed when the path is a directory.
\<close>

function mkdir_parents :: "fs \<Rightarrow> string list \<Rightarrow> error + fs" where
  "mkdir_parents fs p =
     (case os_mkdir fs p of
        Inr fs' \<Rightarrow> Inr fs'
      | Inl e \<Rightarrow>
          if e = FileNotFoundError then
            (if p = [] then Inl e
             else
               (case mkdir_parents fs (butlast p) of
                  Inl e' \<Rightarrow> Inl e'
                | Inr fs1 \<Rightarrow>
                    (case os_mkdir fs1 p of
                       Inr fs2 \<Rightarrow> Inr fs2
                     | Inl e2 \<Rightarrow>
                         if e2 \<noteq> FileNotFoundError \<and> is_dir fs1 p then Inr fs1 else Inl e2)))
          else if is_dir fs p then Inr fs else Inl e)"
  by pat_completeness auto
termination
  by (relation "measure (\<lambda>(fs, p). length p)") auto

declare mkdir_parents.simps [simp del]

text \<open>
  Opening a file for reading; \<^verbatim>\<open>open(p, "wb")\<close>, which creates or truncates the file; and
  the bytes that \<^verbatim>\<open>shutil.copyfileobj\<close> then writes to it.
\<close>

definition read_file :: "fs \<Rightarrow> string list \<Rightarrow> error + string" where
  "read_file fs p =
     (case walk_error fs [] (butlast p) of
        Some e \<Rightarrow> Inl e
      | None \<Rightarrow>
          (case node_at fs p of
             None \<Rightarrow> Inl FileNotFoundError
           | Some Dir \<Rightarrow> Inl IsADirectoryError
           | Some (File c) \<Rightarrow> Inr c))"

definition open_write :: "fs \<Rightarrow> string list \<Rightarrow> error + fs" where
  "open_write fs p =
     (case walk_error fs [] (butlast p) of
        Some e \<Rightarrow> Inl e
      | None \<Rightarrow>
          (case node_at fs p of
             Some Dir \<Rightarrow> Inl IsADirectoryError
           | _ \<Rightarrow> Inr (AList.update p (File []) fs)))"

definition write_bytes :: "fs \<Rightarrow> string list \<Rightarrow> string \<Rightarrow> fs" where
  "write_bytes fs p data = AList.update p (File data) fs"

section \<open>Safe extraction\<close>

text \<open>
  An entry of an archive: its name as stored, and what reading it gives.  \<^verbatim>\<open>z.open(member)\<close>
  may raise before the destination file is opened (\<^verbatim>\<open>Unreadable\<close>); the copy may deliver all
  bytes (\<^verbatim>\<open>Readable\<close>), or deliver bytes and then raise, as the check of the CRC at the end
  does (\<^verbatim>\<open>ReadableThenError\<close>).  \<^verbatim>\<open>ZipInfo.is_dir()\<close> on POSIX: the name ends with a slash.
\<close>

datatype member_stream =
    Unreadable error
  | Readable string
  | ReadableThenError string error

record zip_member =
  filename :: string
  stream :: member_stream

definition member_is_dir :: "zip_member \<Rightarrow> bool" where
  "member_is_dir member \<longleftrightarrow> endswith (filename member) ''/''"

text \<open>
  The loop of \<^verbatim>\<open>safe_extract_zip\<close> over \<^verbatim>\<open>z.infolist()\<close>.  The result is the file system when
  the loop ends or an exception leaves it, and that exception.
\<close>

fun extract_members :: "string list \<Rightarrow> zip_member list \<Rightarrow> ppath \<Rightarrow> fs \<Rightarrow> fs \<times> error option" where
  "extract_members cwd [] dest_dir fs = (fs, None)"
| "extract_members cwd (member # rest) dest_dir fs =
     (let member_path = Path (filename member) in
      if ''__MACOSX'' \<in> set (parts member_path) then extract_members cwd rest dest_dir fs
      else if endswith (filename member) ''.DS_Store'' then extract_members cwd rest dest_dir fs
      else
        let out_path = resolve cwd (joinpath dest_dir member_path) in
        if \<not> is_within_directory cwd dest_dir (abs_path out_path)
        then (fs, Some (UnsafeEntry (filename member)))
        else if member_is_dir member then
          (case mkdir_parents fs out_path of
             Inl e \<Rightarrow> (fs, Some e)
           | Inr fs1 \<Rightarrow> extract_members cwd rest dest_dir fs1)
        else
          (case mkdir_parents fs (butlast out_path) of
             Inl e \<Rightarrow> (fs, Some e)
           | Inr fs1 \<Rightarrow>
               (case stream member of
                  Unreadable e \<Rightarrow> (fs1, Some e)
                | Readable data \<Rightarrow>
                    (case open_write fs1 out_path of
                       Inl e \<Rightarrow> (fs1, Some e)
                     | Inr fs2 \<Rightarrow> extract_members cwd rest dest_dir (write_bytes fs2 out_path data))
                | ReadableThenError data e \<Rightarrow>
                    (case open_write fs1 out_path of
                       Inl e' \<Rightarrow> (fs1, Some e')
                     | Inr fs2 \<Rightarrow> (write_bytes fs2 out_path data, Some e)))))"

text \<open>
  \<^verbatim>\<open>safe_extract_zip\<close>: \<^verbatim>\<open>zipfile.ZipFile(zip_path, "r")\<close> reads the archive's bytes and its
  directory (\<^verbatim>\<open>infolist\<close>, the library's parser, is a parameter: it gives the entries or the
  exception of a bad archive), then the loop runs.
\<close>

definition safe_extract_zip ::
  "(string \<Rightarrow> error + zip_member list) \<Rightarrow> string list \<Rightarrow> ppath \<Rightarrow> ppath \<Rightarrow> fs \<Rightarrow> fs \<times> error option" where
  "safe_extract_zip infolist cwd zip_path dest_dir fs =
     (case read_file fs (resolve cwd zip_path) of
        Inl e \<Rightarrow> (fs, Some e)
      | Inr bytes \<Rightarrow>
          (case infolist bytes of
             Inl e \<Rightarrow> (fs, Some e)
           | Inr members \<Rightarrow> extract_members cwd members dest_dir fs))"

(* lemmas *)

definition only_new_dirs :: "fs \<Rightarrow> fs \<Rightarrow> bool" where
  "only_new_dirs fs fs' \<longleftrightarrow>
     (\<forall>q. node_at fs' q = node_at fs q \<or> (node_at fs q = None \<and> node_at fs' q = Some Dir))"

definition unchanged_outside :: "string list \<Rightarrow> fs \<Rightarrow> fs \<Rightarrow> bool" where
  "unchanged_outside d fs fs' \<longleftrightarrow>
     (\<forall>q. \<not> prefix d q \<longrightarrow>
        node_at fs' q = node_at fs q \<or> (node_at fs q = None \<and> node_at fs' q = Some Dir))"

declare extract_members.simps(2) [simp del]

section \<open>The archive resolver\<close>

text \<open>
  \<^verbatim>\<open>PurePath.suffix\<close>: the part of the last component from its last dot on, when that dot
  is neither the first nor the last character.  \<^verbatim>\<open>with_suffix\<close> raises \<^verbatim>\<open>ValueError\<close> for a
  path with an empty name and otherwise replaces the suffix of the last component (both
  calls below pass a valid suffix, so its validation is left out).
\<close>

fun rsplit_dot :: "string \<Rightarrow> (string \<times> string) option" where
  "rsplit_dot [] = None"
| "rsplit_dot (c # cs) =
     (case rsplit_dot cs of
        Some (stem, ext) \<Rightarrow> Some (c # stem, ext)
      | None \<Rightarrow> if c = CHR ''.'' then Some ([], cs) else None)"

definition path_suffix :: "ppath \<Rightarrow> string" where
  "path_suffix p =
     (case rsplit_dot (name p) of
        None \<Rightarrow> []
      | Some (stem, ext) \<Rightarrow> if stem \<noteq> [] \<and> ext \<noteq> [] then CHR ''.'' # ext else [])"

definition with_suffix :: "ppath \<Rightarrow> string \<Rightarrow> error + ppath" where
  "with_suffix p s =
     (if name p = [] then Inl ValueError
      else
        let old_suffix = path_suffix p;
            name' = (if old_suffix = [] then name p @ s
                     else take (length (name p) - length old_suffix) (name p) @ s)
        in Inr (p\<lparr>parts := butlast (parts p) @ [name']\<rparr>))"

text \<open>
  \<^verbatim>\<open>shutil.rmtree\<close>: raises for a path that is missing or is a file, and removes a directory
  with everything below it.  The root itself cannot be removed: its content goes and the
  final \<^verbatim>\<open>rmdir\<close> raises.
\<close>

definition rmtree :: "fs \<Rightarrow> string list \<Rightarrow> fs \<times> error option" where
  "rmtree fs d =
     (case walk_error fs [] (butlast d) of
        Some e \<Rightarrow> (fs, Some e)
      | None \<Rightarrow>
          (case node_at fs d of
             None \<Rightarrow> (fs, Some FileNotFoundError)
           | Some (File _) \<Rightarrow> (fs, Some NotADirectoryError)
           | Some Dir \<Rightarrow>
               if d = [] then ([], Some OSError)
               else (filter (\<lambda>(k, n). \<not> prefix d k) fs, None)))"

text \<open>
  \<^verbatim>\<open>resolve_root_dir\<close>.  \<^verbatim>\<open>st_mtime\<close> gives the modification times that \<^verbatim>\<open>stat()\<close> reads; the
  function reads them before it changes anything, so they are a parameter of the call.
  The result is the file system after the call, the lines printed, and the directory
  returned or the exception raised.
\<close>

definition resolve_root_dir ::
  "(string \<Rightarrow> error + zip_member list) \<Rightarrow> (string list \<Rightarrow> 'm::linorder) \<Rightarrow> string list \<Rightarrow>
   ppath \<Rightarrow> fs \<Rightarrow> fs \<times> string list \<times> (error + ppath)" where
  "resolve_root_dir infolist st_mtime cwd input_path fs =
     (case (if path_suffix input_path = ''.zip''
            then (Inr input_path, with_suffix input_path [])
            else (with_suffix input_path ''.zip'', Inr input_path)) of
        (Inl e, _) \<Rightarrow> (fs, [], Inl e)
      | (Inr zip_path, Inl e) \<Rightarrow> (fs, [], Inl e)
      | (Inr zip_path, Inr dir_path) \<Rightarrow>
          if path_exists fs (resolve cwd zip_path) then
            (if path_exists fs (resolve cwd dir_path) then
               (if st_mtime (resolve cwd zip_path) > st_mtime (resolve cwd dir_path) then
                  (case rmtree fs (resolve cwd dir_path) of
                     (fs1, Some e) \<Rightarrow> (fs1, [''Zip newer than directory. Re-extracting...''], Inl e)
                   | (fs1, None) \<Rightarrow>
                       (case mkdir_parents fs1 (resolve cwd dir_path) of
                          Inl e \<Rightarrow> (fs1, [''Zip newer than directory. Re-extracting...''], Inl e)
                        | Inr fs2 \<Rightarrow>
                            (case safe_extract_zip infolist cwd zip_path dir_path fs2 of
                               (fs3, Some e) \<Rightarrow>
                                 (fs3, [''Zip newer than directory. Re-extracting...''], Inl e)
                             | (fs3, None) \<Rightarrow>
                                 (fs3, [''Zip newer than directory. Re-extracting...''], Inr dir_path))))
                else (fs, [], Inr dir_path))
             else
               (case mkdir_parents fs (resolve cwd dir_path) of
                  Inl e \<Rightarrow> (fs, [''Extracting zip...''], Inl e)
                | Inr fs2 \<Rightarrow>
                    (case safe_extract_zip infolist cwd zip_path dir_path fs2 of
                       (fs3, Some e) \<Rightarrow> (fs3, [''Extracting zip...''], Inl e)
                     | (fs3, None) \<Rightarrow> (fs3, [''Extracting zip...''], Inr dir_path))))
          else if path_exists fs (resolve cwd dir_path) then (fs, [], Inr dir_path)
          else (fs, [], Inl FileNotFoundError))"

section \<open>Dataset discovery\<close>

definition REQUIRED_FILES :: "string list" where
  "REQUIRED_FILES =
     [''bills.csv'', ''people.csv'', ''sponsors.csv'', ''history.csv'', ''documents.csv'',
      ''rollcalls.csv'']"

text \<open>
  \<^verbatim>\<open>root.rglob("*")\<close> yields every path found by walking down from the root through
  directories, the root itself not among them: a bound path \<open>k\<close> strictly below the resolved
  root \<open>r\<close> such that \<open>r\<close> and every path between \<open>r\<close> and \<open>k\<close> is a directory (no entry of a
  directory is named \<^verbatim>\<open>..\<close>).  Each is yielded once, as the root joined with the part below
  it; the order of the walk does not matter to the callers below, which sort.
\<close>

definition below :: "fs \<Rightarrow> string list \<Rightarrow> string list \<Rightarrow> bool" where
  "below fs r k \<longleftrightarrow>
     strict_prefix r k \<and> ''..'' \<notin> set (drop (length r) k) \<and>
     list_all (\<lambda>j. is_dir fs (take j k)) [length r..<length k]"

definition rglob_all :: "string list \<Rightarrow> ppath \<Rightarrow> fs \<Rightarrow> ppath list" where
  "rglob_all cwd root fs =
     (let r = resolve cwd root in
      map (\<lambda>k. root\<lparr>parts := parts root @ drop (length r) k\<rparr>)
        (filter (below fs r) (remdups (map fst fs))))"

text \<open>
  \<^verbatim>\<open>discover_csv_dirs\<close>.  \<^verbatim>\<open>dirs.sort()\<close> compares paths by their components, the lists
  lexicographically and the components as strings.
\<close>

definition discover_csv_dirs :: "string list \<Rightarrow> ppath \<Rightarrow> fs \<Rightarrow> ppath list" where
  "discover_csv_dirs cwd root fs =
     sort_key parts
       (filter (\<lambda>dirpath. is_dir fs (resolve cwd dirpath) \<and>
                  list_all (\<lambda>f. is_file fs (resolve cwd (joinpath dirpath (Path f)))) REQUIRED_FILES)
          (rglob_all cwd root fs))"

section \<open>Raw streaming concatenation\<close>

text \<open>
  \<^verbatim>\<open>root.rglob("CSV/bills.csv")\<close>: the paths found below the root whose last two components
  are \<^verbatim>\<open>CSV\<close> and \<^verbatim>\<open>bills.csv\<close>.  \<^verbatim>\<open>path.parents[i]\<close> drops the last \<open>i + 1\<close> components and
  raises \<^verbatim>\<open>IndexError\<close> when the path has no more than \<open>i\<close>.
\<close>

definition rglob_pattern :: "string list \<Rightarrow> ppath \<Rightarrow> string list \<Rightarrow> fs \<Rightarrow> ppath list" where
  "rglob_pattern cwd root pattern fs =
     filter (\<lambda>p. suffix pattern (drop (length (parts root)) (parts p))) (rglob_all cwd root fs)"

definition parents_nth :: "ppath \<Rightarrow> nat \<Rightarrow> error + ppath" where
  "parents_nth p i =
     (if i < length (parts p) then Inr (p\<lparr>parts := take (length (parts p) - 1 - i) (parts p)\<rparr>)
      else Inl IndexError)"

text \<open>
  What \<^verbatim>\<open>stream_concat\<close> prints: \<^verbatim>\<open>No bills.csv files found\<close>,
  \<^verbatim>\<open>Error processing <path>: <exception>\<close> and \<^verbatim>\<open>Done. Wrote <n> rows to <path>\<close>.

  The loop of \<^verbatim>\<open>stream_concat\<close> carries \<^verbatim>\<open>header_written\<close>, the rows given to
  \<^verbatim>\<open>writer.writerow\<close> so far, \<^verbatim>\<open>total_rows\<close> and the lines printed.  \<open>rd\<close> opens a file and
  reads it with \<^verbatim>\<open>csv.reader\<close>: the exception of \<^verbatim>\<open>open\<close>, or the rows read and the exception
  that ended the reading, if one did.  The \<^verbatim>\<open>try\<close> catches every exception of the body,
  also the \<^verbatim>\<open>StopIteration\<close> of \<^verbatim>\<open>next(reader)\<close> on a file without rows.
\<close>

datatype message =
    NoBillsFound
  | ErrorProcessing ppath error
  | DoneWrote nat ppath

type_synonym concat_state = "bool \<times> string list list \<times> nat \<times> message list"

fun concat_loop ::
  "(ppath \<Rightarrow> error + string list list \<times> error option) \<Rightarrow> ppath list \<Rightarrow> concat_state \<Rightarrow> concat_state" where
  "concat_loop rd [] st = st"
| "concat_loop rd (bills_path # rest) (header_written, out, total_rows, msgs) =
     (case parents_nth bills_path 2 of
        Inl e \<Rightarrow>
          concat_loop rd rest (header_written, out, total_rows, msgs @ [ErrorProcessing bills_path e])
      | Inr state \<Rightarrow>
          let state_clean = letters_only (name state) in
          (case rd bills_path of
             Inl e \<Rightarrow>
               concat_loop rd rest
                 (header_written, out, total_rows, msgs @ [ErrorProcessing bills_path e])
           | Inr ([], None) \<Rightarrow>
               concat_loop rd rest
                 (header_written, out, total_rows, msgs @ [ErrorProcessing bills_path StopIteration])
           | Inr ([], Some e) \<Rightarrow>
               concat_loop rd rest
                 (header_written, out, total_rows, msgs @ [ErrorProcessing bills_path e])
           | Inr (header # data, err) \<Rightarrow>
               concat_loop rd rest
                 (True,
                  (if header_written then out else out @ [header @ [''state'']])
                    @ map (\<lambda>row. row @ [state_clean]) data,
                  total_rows + length data,
                  msgs @ (case err of None \<Rightarrow> [] | Some e \<Rightarrow> [ErrorProcessing bills_path e]))))"

text \<open>
  \<^verbatim>\<open>stream_concat\<close>: \<^verbatim>\<open>csv_reader\<close> (the bytes of a file to its rows) and \<^verbatim>\<open>writerow\<close> (a row
  to the bytes written for it) are the \<^verbatim>\<open>csv\<close> library's and are parameters.  The output
  file is created or truncated before the first input is read.
\<close>

definition stream_concat ::
  "(string \<Rightarrow> string list list \<times> error option) \<Rightarrow> (string list \<Rightarrow> string) \<Rightarrow> string list \<Rightarrow>
   ppath \<Rightarrow> ppath \<Rightarrow> fs \<Rightarrow> fs \<times> message list \<times> error option" where
  "stream_concat csv_reader writerow cwd root_dir output_path fs =
     (let bills_paths = sort_key parts (rglob_pattern cwd root_dir [''CSV'', ''bills.csv''] fs) in
      if bills_paths = [] then (fs, [NoBillsFound], None)
      else
        (case mkdir_parents fs (resolve cwd (parent output_path)) of
           Inl e \<Rightarrow> (fs, [], Some e)
         | Inr fs1 \<Rightarrow>
             (case open_write fs1 (resolve cwd output_path) of
                Inl e \<Rightarrow> (fs1, [], Some e)
              | Inr fs2 \<Rightarrow>
                  (case concat_loop
                          (\<lambda>p. map_sum id csv_reader (read_file fs2 (resolve cwd p)))
                          bills_paths (False, [], 0, []) of
                     (header_written, out, total_rows, msgs) \<Rightarrow>
                       (write_bytes fs2 (resolve cwd output_path) (concat (map writerow out)),
                        msgs @ [DoneWrote total_rows output_path], None)))))"

section \<open>The per-dataset loop of the aggregator\<close>

text \<open>
  \<^verbatim>\<open>derive_output_path\<close> of \<^verbatim>\<open>concat_with_join_legiscan.py\<close>:
  \<^verbatim>\<open>OUTPUT_DIR / f"{state_code}_{session_folder}.csv"\<close>.
\<close>

definition derive_output_path :: "ppath \<Rightarrow> ppath \<Rightarrow> ppath" where
  "derive_output_path OUTPUT_DIR csv_dir =
     (let session_folder = name (parent csv_dir);
          state_code = letters_only (name (parent (parent csv_dir)))
      in joinpath OUTPUT_DIR (Path (state_code @ ''_'' @ session_folder @ ''.csv'')))"

text \<open>
  The lines the two loops print: \<^verbatim>\<open>[i/n] <csv_dir>\<close> on standard output before the \<^verbatim>\<open>try\<close>;
  then \<^verbatim>\<open>-> <out_path> (<rows> rows)\<close> (in \<^verbatim>\<open>join_legiscan_csvs.py\<close>: \<^verbatim>\<open>-> <out_path>\<close>) on
  standard output, or \<^verbatim>\<open>ERROR: <exception>\<close> on standard error.
\<close>

datatype line =
    Progress nat nat ppath
  | Wrote ppath nat
  | WroteJoin ppath
  | ErrorLine error

text \<open>
  The \<^verbatim>\<open>for\<close> loop of \<^verbatim>\<open>main\<close> in \<^verbatim>\<open>concat_with_join_legiscan.py\<close>, from dataset number \<open>i\<close> of
  \<open>n\<close> on.  \<^verbatim>\<open>process_csv_dir\<close> is a parameter: it takes the dataset directory, the output
  path and the state of the world (the file system), and gives the row count or the
  exception it raised, and the state it left.  \<^verbatim>\<open>except Exception\<close> catches every exception
  of the \<^verbatim>\<open>try\<close> body.
\<close>

fun main_loop ::
  "(ppath \<Rightarrow> ppath \<Rightarrow> 'w \<Rightarrow> (error + nat) \<times> 'w) \<Rightarrow> ppath \<Rightarrow> nat \<Rightarrow> nat \<Rightarrow> ppath list \<Rightarrow>
   nat \<times> line list \<times> 'w \<Rightarrow> nat \<times> line list \<times> 'w" where
  "main_loop process_csv_dir OUTPUT_DIR n i [] st = st"
| "main_loop process_csv_dir OUTPUT_DIR n i (csv_dir # rest) (total_rows, printed, w) =
     (let out_path = derive_output_path OUTPUT_DIR csv_dir;
          printed1 = printed @ [Progress i n csv_dir]
      in case process_csv_dir csv_dir out_path w of
           (Inr rows, w') \<Rightarrow>
             main_loop process_csv_dir OUTPUT_DIR n (Suc i) rest
               (total_rows + rows, printed1 @ [Wrote out_path rows], w')
         | (Inl e, w') \<Rightarrow>
             main_loop process_csv_dir OUTPUT_DIR n (Suc i) rest
               (total_rows, printed1 @ [ErrorLine e], w'))"

text \<open>The \<^verbatim>\<open>for\<close> loop of \<^verbatim>\<open>main\<close> in \<^verbatim>\<open>scripts/join_legiscan_csvs.py\<close>.\<close>

fun join_script_main_loop ::
  "(ppath \<Rightarrow> ppath \<Rightarrow> 'w \<Rightarrow> (error + ppath) \<times> 'w) \<Rightarrow> ppath \<Rightarrow> nat \<Rightarrow> nat \<Rightarrow> ppath list \<Rightarrow>
   line list \<times> 'w \<Rightarrow> line list \<times> 'w" where
  "join_script_main_loop process_csv_dir out_dir n i [] st = st"
| "join_script_main_loop process_csv_dir out_dir n i (csv_dir # rest) (printed, w) =
     (let printed1 = printed @ [Progress i n csv_dir]
      in case process_csv_dir csv_dir out_dir w of
           (Inr out_path, w') \<Rightarrow>
             join_script_main_loop process_csv_dir out_dir n (Suc i) rest
               (printed1 @ [WroteJoin out_path], w')
         | (Inl e, w') \<Rightarrow>
             join_script_main_loop process_csv_dir out_dir n (Suc i) rest
               (printed1 @ [ErrorLine e], w'))"

definition outcome_line :: "ppath \<Rightarrow> error + nat \<Rightarrow> line" where
  "outcome_line out_path r = (case r of Inl e \<Rightarrow> ErrorLine e | Inr rows \<Rightarrow> Wrote out_path rows)"

definition join_outcome_line :: "error + ppath \<Rightarrow> line" where
  "join_outcome_line r = (case r of Inl e \<Rightarrow> ErrorLine e | Inr out_path \<Rightarrow> WroteJoin out_path)"

section \<open>The per-bill aggregator\<close>

text \<open>
  The six tables as \<^verbatim>\<open>pd.read_csv\<close> loads them, with the columns the aggregator reads.  A
  cell that pandas holds as NaN (an empty field of the file, also a key without a partner
  after a left join) is \<open>None\<close>.  The remaining columns of a bill are carried along as one
  value; none of them is named like a column that the aggregator adds.  \<^verbatim>\<open>bill_id\<close> is of a
  type with a linear order (\<^verbatim>\<open>sort_values\<close> compares it), \<^verbatim>\<open>date\<close> is a string.  \<^verbatim>\<open>yea\<close> and
  \<^verbatim>\<open>nay\<close> are columns of integers with a number in every row, which pandas holds as
  \<^verbatim>\<open>int64\<close> (a column with an empty field would be held as \<^verbatim>\<open>float64\<close>; such a table is not
  among the tables here).
\<close>

datatype 'a column = Missing | Cell 'a

record ('k, 'b) bill_row =
  bill_id :: "'k option"
  other_columns :: 'b

record 'p person_row =
  people_id :: "'p option"
  person_name :: "string option"
  party :: "string option"

record ('k, 'p) sponsor_row =
  sp_bill_id :: "'k option"
  sp_people_id :: "'p option"
  position :: "int option"

record 'k history_row =
  hi_bill_id :: "'k option"
  date :: "string option"
  sequence :: "int option"
  action :: "string option"

record 'k document_row =
  do_bill_id :: "'k option"
  document_type :: "string option"
  url :: "string option"

record 'k rollcall_row =
  rc_bill_id :: "'k option"
  roll_call_id :: "int option"
  yea :: "64 word"
  nay :: "64 word"

text \<open>
  \<^verbatim>\<open>Series.unique()\<close> keeps the first occurrence of each value; \<^verbatim>\<open>" | ".join\<close>;
  \<^verbatim>\<open>Series.dropna()\<close>; and the key under which \<^verbatim>\<open>sort_values\<close> puts NaN last.
\<close>

fun unique :: "'a list \<Rightarrow> 'a list" where
  "unique [] = []"
| "unique (x # xs) = x # unique (filter (\<lambda>y. y \<noteq> x) xs)"

fun join :: "string \<Rightarrow> string list \<Rightarrow> string" where
  "join sep [] = []"
| "join sep [x] = x"
| "join sep (x # y # ys) = x @ sep @ join sep (y # ys)"

definition dropna :: "'a option list \<Rightarrow> 'a list" where
  "dropna xs = List.map_filter id xs"

definition na_last :: "'a option \<Rightarrow> bool \<times> 'a option" where
  "na_last v = (v = None, v)"

text \<open>
  \<^verbatim>\<open>groupby(key, sort=False)\<close>: one group for each key value, in the order of first occurrence;
  the rows of a group keep their order; rows without a key belong to no group.

  \<^verbatim>\<open>.apply(_agg, include_groups=False).reset_index()\<close> calls \<^verbatim>\<open>_agg\<close> once for each group and
  makes one row of each result.  When there is no group (the table has no row, or none
  with a key), pandas does not call \<^verbatim>\<open>_agg\<close> at all and returns an empty frame that keeps
  the columns of the input (\<^verbatim>\<open>DataFrameGroupBy._wrap_applied_output\<close>): the columns that
  \<^verbatim>\<open>_agg\<close> names do not exist then.  That frame is \<open>None\<close> here.

  \<^verbatim>\<open>.agg(name=(column, function), ...)\<close> always gives a frame with the named columns.
\<close>

definition groups :: "('r \<Rightarrow> 'k option) \<Rightarrow> 'r list \<Rightarrow> ('k \<times> 'r list) list" where
  "groups key rows =
     map (\<lambda>k. (k, filter (\<lambda>r. key r = Some k) rows)) (unique (dropna (map key rows)))"

definition groupby_apply ::
  "('r \<Rightarrow> 'k option) \<Rightarrow> ('r list \<Rightarrow> 'a) \<Rightarrow> 'r list \<Rightarrow> ('k \<times> 'a) list option" where
  "groupby_apply key agg rows =
     (case groups key rows of
        [] \<Rightarrow> None
      | g # gs \<Rightarrow> Some (map (\<lambda>(k, grp). (k, agg grp)) (g # gs)))"

definition groupby_agg ::
  "('r \<Rightarrow> 'k option) \<Rightarrow> ('r list \<Rightarrow> 'a) \<Rightarrow> 'r list \<Rightarrow> ('k \<times> 'a) list" where
  "groupby_agg key agg rows = map (\<lambda>(k, grp). (k, agg grp)) (groups key rows)"

text \<open>
  The rows that the four aggregations produce, and the rows of \<^verbatim>\<open>sponsors.merge(people[[...]],
  on="people_id", how="left")\<close>: a sponsorship row without a partner once, with NaN for name
  and party, and otherwise once for each person row with its \<^verbatim>\<open>people_id\<close>.
\<close>

record sponsors_agg_row =
  sa_sponsor_names :: string
  sa_sponsor_parties :: string
  sa_primary_sponsor :: "string option"
  sa_sponsor_count :: int

record history_agg_row =
  ha_action_count :: int
  ha_last_history_action :: "string option"

record documents_agg_row =
  da_document_count :: int
  da_document_types :: string
  da_document_urls :: string

record rollcalls_agg_row =
  ra_rollcall_count :: int
  ra_total_yea :: "64 word"
  ra_total_nay :: "64 word"

record ('k, 'p) merged_row =
  sponsorship :: "('k, 'p) sponsor_row"
  joined_name :: "string option"
  joined_party :: "string option"

definition merge_people ::
  "('k, 'p) sponsor_row list \<Rightarrow> 'p person_row list \<Rightarrow> ('k, 'p) merged_row list" where
  "merge_people sponsors people =
     concat (map (\<lambda>s.
        (case filter (\<lambda>p. people_id p = sp_people_id s) people of
           [] \<Rightarrow> [\<lparr>sponsorship = s, joined_name = None, joined_party = None\<rparr>]
         | m # ms \<Rightarrow>
             map (\<lambda>p. \<lparr>sponsorship = s, joined_name = person_name p, joined_party = party p\<rparr>)
               (m # ms))) sponsors)"

text \<open>
  \<^verbatim>\<open>aggregate_sponsors\<close> with its \<^verbatim>\<open>_agg\<close>: \<^verbatim>\<open>primary\<close> holds the names of the rows of the group
  with \<^verbatim>\<open>position == 1\<close>; \<^verbatim>\<open>primary.iloc[0] if len(primary) > 0 else ""\<close>.
\<close>

definition sponsors_agg_group :: "('k, 'p) merged_row list \<Rightarrow> sponsors_agg_row" where
  "sponsors_agg_group grp =
     (let primary = map joined_name (filter (\<lambda>m. position (sponsorship m) = Some 1) grp) in
      \<lparr> sa_sponsor_names = join '' | '' (dropna (map joined_name grp)),
        sa_sponsor_parties = join '' | '' (dropna (map joined_party grp)),
        sa_primary_sponsor = (case primary of [] \<Rightarrow> Some [] | v # _ \<Rightarrow> v),
        sa_sponsor_count = int (length grp) \<rparr>)"

definition aggregate_sponsors ::
  "('k::linorder, 'p) sponsor_row list \<Rightarrow> 'p person_row list \<Rightarrow> ('k \<times> sponsors_agg_row) list option" where
  "aggregate_sponsors sponsors people =
     (let merged = merge_people sponsors people;
          merged = sort_key (\<lambda>m. (na_last (sp_bill_id (sponsorship m)),
                                      na_last (position (sponsorship m)))) merged
      in groupby_apply (\<lambda>m. sp_bill_id (sponsorship m)) sponsors_agg_group merged)"

text \<open>
  \<^verbatim>\<open>aggregate_history\<close>, \<^verbatim>\<open>aggregate_documents\<close> and \<^verbatim>\<open>aggregate_rollcalls\<close>.  \<^verbatim>\<open>"count"\<close> counts
  the cells of \<^verbatim>\<open>roll_call_id\<close> that are not NaN; \<^verbatim>\<open>"sum"\<close> adds the cells of an \<^verbatim>\<open>int64\<close> column
  in \<^verbatim>\<open>int64\<close>, where the addition wraps around.
\<close>

definition history_agg_group :: "'k history_row list \<Rightarrow> history_agg_row" where
  "history_agg_group grp =
     \<lparr> ha_action_count = int (length grp),
       ha_last_history_action = action (last grp) \<rparr>"

definition aggregate_history ::
  "('k::linorder) history_row list \<Rightarrow> ('k \<times> history_agg_row) list option" where
  "aggregate_history history =
     (let history = sort_key (\<lambda>h. (na_last (hi_bill_id h), na_last (date h), na_last (sequence h))) history
      in groupby_apply hi_bill_id history_agg_group history)"

definition documents_agg_group :: "'k document_row list \<Rightarrow> documents_agg_row" where
  "documents_agg_group grp =
     \<lparr> da_document_count = int (length grp),
       da_document_types = join '' | '' (unique (dropna (map document_type grp))),
       da_document_urls = join '' | '' (dropna (map url grp)) \<rparr>"

definition aggregate_documents ::
  "'k document_row list \<Rightarrow> ('k \<times> documents_agg_row) list option" where
  "aggregate_documents documents = groupby_apply do_bill_id documents_agg_group documents"

definition rollcalls_agg_group :: "'k rollcall_row list \<Rightarrow> rollcalls_agg_row" where
  "rollcalls_agg_group grp =
     \<lparr> ra_rollcall_count = int (length (dropna (map roll_call_id grp))),
       ra_total_yea = sum_list (map yea grp),
       ra_total_nay = sum_list (map nay grp) \<rparr>"

definition aggregate_rollcalls :: "'k rollcall_row list \<Rightarrow> ('k \<times> rollcalls_agg_row) list" where
  "aggregate_rollcalls rollcalls = groupby_agg rc_bill_id rollcalls_agg_group rollcalls"

text \<open>
  A row of the result, with the columns the aggregator adds.  A column that the frame does
  not have is \<open>Missing\<close>; a cell is \<open>Cell\<close>, NaN being \<open>Cell None\<close> in a text column.
  \<^verbatim>\<open>merge(agg, on="bill_id", how="left")\<close> looks the bill's key up among the aggregated rows;
  \<^verbatim>\<open>fillna(0).astype(int)\<close> is applied to a count column only \<^verbatim>\<open>if col in result.columns\<close>.

  A column of integers that the left merge brings in stays \<^verbatim>\<open>int64\<close> when every bill has a
  partner.  When some bill has none, the merge puts NaN there and the column becomes
  \<^verbatim>\<open>float64\<close>: every cell is converted to the nearest double, ties to the even significand
  of 53 bits (\<^verbatim>\<open>astype_float64\<close> gives the value of that double, an integer), and
  \<^verbatim>\<open>astype(int)\<close> converts the doubles back to \<^verbatim>\<open>int64\<close> after \<^verbatim>\<open>fillna(0)\<close>.  The conversion
  back is the cast of the processor; the one double it can meet outside \<^verbatim>\<open>int64\<close>, \<open>2\<^sup>6\<^sup>3\<close>,
  becomes \<open>- 2\<^sup>6\<^sup>3\<close> on x86-64, which is also what \<^verbatim>\<open>word_of_int\<close> gives.  Both conversions
  leave an integer of magnitude up to \<open>2\<^sup>5\<^sup>3\<close> as it is; the four count columns hold numbers
  of rows of a frame, which are far below that, so that the conversions do not show in
  \<^verbatim>\<open>fillna_astype_int\<close>.  The vote totals come from the data and take both conversions in
  \<^verbatim>\<open>fillna_astype_int_total\<close>, whose first argument says whether the column became
  \<^verbatim>\<open>float64\<close>.
\<close>

record ('k, 'b) result_row =
  state :: string
  bill :: "('k, 'b) bill_row"
  sponsor_names :: "string option column"
  sponsor_parties :: "string option column"
  primary_sponsor :: "string option column"
  sponsor_count :: "int column"
  action_count :: "int column"
  last_history_action :: "string option column"
  document_count :: "int column"
  document_types :: "string option column"
  document_urls :: "string option column"
  rollcall_count :: "int column"
  total_yea :: "int column"
  total_nay :: "int column"

definition merge_left :: "'k option \<Rightarrow> ('k \<times> 'a) list option \<Rightarrow> 'a option column" where
  "merge_left key agg =
     (case agg of
        None \<Rightarrow> Missing
      | Some rows \<Rightarrow> Cell (case key of None \<Rightarrow> None | Some k \<Rightarrow> map_of rows k))"

definition column_of :: "('a \<Rightarrow> 'c) \<Rightarrow> 'a option column \<Rightarrow> 'c option column" where
  "column_of f c = (case c of Missing \<Rightarrow> Missing | Cell v \<Rightarrow> Cell (map_option f v))"

definition fillna_astype_int :: "int option column \<Rightarrow> int column" where
  "fillna_astype_int c =
     (case c of Missing \<Rightarrow> Missing | Cell None \<Rightarrow> Cell 0 | Cell (Some n) \<Rightarrow> Cell n)"

function bit_length :: "int \<Rightarrow> nat" where
  "bit_length n = (if n \<le> 0 then 0 else Suc (bit_length (n div 2)))"
  by pat_completeness auto

termination
  by (relation "measure nat") auto

declare bit_length.simps [simp del]

definition astype_float64 :: "64 word \<Rightarrow> int" where
  "astype_float64 w =
     (let n = sint w;
          k = bit_length \<bar>n\<bar> - 53;
          q = \<bar>n\<bar> div 2 ^ k;
          r = \<bar>n\<bar> mod 2 ^ k;
          q' = (if 2 ^ k < 2 * r \<or> (2 * r = 2 ^ k \<and> odd q) then q + 1 else q)
      in sgn n * (q' * 2 ^ k))"

definition fillna_astype_int_total :: "bool \<Rightarrow> 64 word option column \<Rightarrow> int column" where
  "fillna_astype_int_total is_float64 c =
     (case c of
        Missing \<Rightarrow> Missing
      | Cell None \<Rightarrow> Cell 0
      | Cell (Some v) \<Rightarrow>
          Cell (sint (if is_float64 then word_of_int (astype_float64 v) else v)))"

definition unmatched :: "'k option \<Rightarrow> ('k \<times> 'a) list \<Rightarrow> bool" where
  "unmatched key rows = (case key of None \<Rightarrow> True | Some k \<Rightarrow> Option.is_none (map_of rows k))"

record ('k, 'p, 'b) tables =
  bills :: "('k, 'b) bill_row list"
  people :: "'p person_row list"
  sponsors :: "('k, 'p) sponsor_row list"
  history :: "'k history_row list"
  documents :: "'k document_row list"
  rollcalls :: "'k rollcall_row list"

text \<open>
  \<^verbatim>\<open>process_csv_dir\<close> of \<^verbatim>\<open>concat_with_join_legiscan.py\<close>: the frame it builds from the loaded
  tables (\<^verbatim>\<open>join_tables\<close>), and the whole function, where \<^verbatim>\<open>read_csvs\<close> stands for the six calls
  of \<^verbatim>\<open>pd.read_csv\<close> and \<^verbatim>\<open>to_csv\<close> for creating the output directory and writing the file
  (both may raise).  \<^verbatim>\<open>DataFrame.to_csv\<close> writes NaN as an empty field.
\<close>

definition join_tables :: "ppath \<Rightarrow> ('k::linorder, 'p, 'b) tables \<Rightarrow> ('k, 'b) result_row list" where
  "join_tables csv_dir t =
     (let sponsors_agg = aggregate_sponsors (sponsors t) (people t);
          history_agg = aggregate_history (history t);
          documents_agg = aggregate_documents (documents t);
          rollcalls_agg = aggregate_rollcalls (rollcalls t);
          is_float64 = list_ex (\<lambda>b. unmatched (bill_id b) rollcalls_agg) (bills t)
      in map (\<lambda>b.
           let s = merge_left (bill_id b) sponsors_agg;
               h = merge_left (bill_id b) history_agg;
               d = merge_left (bill_id b) documents_agg;
               r = merge_left (bill_id b) (Some rollcalls_agg)
           in \<lparr> state = state_code csv_dir, bill = b,
                sponsor_names = column_of sa_sponsor_names s,
                sponsor_parties = column_of sa_sponsor_parties s,
                primary_sponsor = (case s of Missing \<Rightarrow> Missing
                                   | Cell v \<Rightarrow> Cell (Option.bind v sa_primary_sponsor)),
                sponsor_count = fillna_astype_int (column_of sa_sponsor_count s),
                action_count = fillna_astype_int (column_of ha_action_count h),
                last_history_action = (case h of Missing \<Rightarrow> Missing
                                       | Cell v \<Rightarrow> Cell (Option.bind v ha_last_history_action)),
                document_count = fillna_astype_int (column_of da_document_count d),
                document_types = column_of da_document_types d,
                document_urls = column_of da_document_urls d,
                rollcall_count = fillna_astype_int (column_of ra_rollcall_count r),
                total_yea = fillna_astype_int_total is_float64 (column_of ra_total_yea r),
                total_nay = fillna_astype_int_total is_float64 (column_of ra_total_nay r) \<rparr>) (bills t))"

definition process_csv_dir ::
  "(ppath \<Rightarrow> 'w \<Rightarrow> error + ('k::linorder, 'p, 'b) tables) \<Rightarrow>
   (('k, 'b) result_row list \<Rightarrow> ppath \<Rightarrow> 'w \<Rightarrow> error + 'w) \<Rightarrow>
   ppath \<Rightarrow> ppath \<Rightarrow> 'w \<Rightarrow> (error + nat) \<times> 'w" where
  "process_csv_dir read_csvs to_csv csv_dir out_path w =
     (case read_csvs csv_dir w of
        Inl e \<Rightarrow> (Inl e, w)
      | Inr t \<Rightarrow>
          let result = join_tables csv_dir t in
          (case to_csv result out_path w of
             Inl e \<Rightarrow> (Inl e, w)
           | Inr w' \<Rightarrow> (Inr (length result), w')))"

definition to_csv_cell :: "string option \<Rightarrow> string" where
  "to_csv_cell v = (case v of None \<Rightarrow> [] | Some s \<Rightarrow> s)"

section \<open>Example inputs\<close>



definition example_root_dataset :: fs where
  "example_root_dataset =
     [([''bulk''], Dir),
      ([''bulk'', ''bills.csv''], File ''h''),
      ([''bulk'', ''people.csv''], File ''h''),
      ([''bulk'', ''sponsors.csv''], File ''h''),
      ([''bulk'', ''history.csv''], File ''h''),
      ([''bulk'', ''documents.csv''], File ''h''),
      ([''bulk'', ''rollcalls.csv''], File ''h'')]"

definition example_bulk :: fs where
  "example_bulk =
     [([''bulk''], Dir),
      ([''bulk'', ''bills.csv''], File ''h''),
      ([''bulk'', ''NY''], Dir),
      ([''bulk'', ''NY'', ''s1''], Dir),
      ([''bulk'', ''NY'', ''s1'', ''csv''], Dir),
      ([''bulk'', ''NY'', ''s1'', ''csv'', ''bills.csv''], File ''h''),
      ([''bulk'', ''NY'', ''s1'', ''csv'', ''people.csv''], File ''h''),
      ([''bulk'', ''NY'', ''s1'', ''csv'', ''sponsors.csv''], File ''h''),
      ([''bulk'', ''NY'', ''s1'', ''csv'', ''history.csv''], File ''h''),
      ([''bulk'', ''NY'', ''s1'', ''csv'', ''documents.csv''], File ''h''),
      ([''bulk'', ''NY'', ''s1'', ''csv'', ''rollcalls.csv''], File ''h''),
      ([''bulk'', ''AK''], Dir),
      ([''bulk'', ''AK'', ''s1''], Dir),
      ([''bulk'', ''AK'', ''s1'', ''csv''], Dir),
      ([''bulk'', ''AK'', ''s1'', ''csv'', ''bills.csv''], File ''h''),
      ([''bulk'', ''AK'', ''s1'', ''csv'', ''people.csv''], File ''h''),
      ([''bulk'', ''AK'', ''s1'', ''csv'', ''sponsors.csv''], File ''h''),
      ([''bulk'', ''AK'', ''s1'', ''csv'', ''history.csv''], File ''h''),
      ([''bulk'', ''AK'', ''s1'', ''csv'', ''documents.csv''], File ''h''),
      ([''bulk'', ''AK'', ''s1'', ''csv'', ''rollcalls.csv''], Dir),
      ([''bulk'', ''AK'', ''s2''], Dir),
      ([''bulk'', ''AK'', ''s2'', ''bills.csv''], File ''h''),
      ([''bulk'', ''AK'', ''s2'', ''people.csv''], File ''h''),
      ([''bulk'', ''AK'', ''s2'', ''sponsors.csv''], File ''h''),
      ([''bulk'', ''AK'', ''s2'', ''history.csv''], File ''h''),
      ([''bulk'', ''AK'', ''s2'', ''documents.csv''], File ''h''),
      ([''bulk'', ''AK'', ''s2'', ''rollcalls.csv''], File ''h'')]"

definition example_reader :: "string \<Rightarrow> string list list \<times> error option" where
  "example_reader bytes = (map (split_on CHR '','') (split_on CHR '';'' bytes), None)"

definition example_writerow :: "string list \<Rightarrow> string" where
  "example_writerow row = concat (map (\<lambda>cell. cell @ '','') row) @ '';''"

definition example_states :: fs where
  "example_states =
     [([''d''], Dir), ([''d'', ''x''], Dir),
      ([''d'', ''x'', ''NY''], Dir), ([''d'', ''x'', ''NY'', ''s''], Dir),
      ([''d'', ''x'', ''NY'', ''s'', ''CSV''], Dir),
      ([''d'', ''x'', ''NY'', ''s'', ''CSV'', ''bills.csv''], File ''id,t;1,a;2,b''),
      ([''d'', ''x'', ''A.K''], Dir), ([''d'', ''x'', ''A.K'', ''s''], Dir),
      ([''d'', ''x'', ''A.K'', ''s'', ''CSV''], Dir),
      ([''d'', ''x'', ''A.K'', ''s'', ''CSV'', ''bills.csv''], File ''id,t;3,c'')]"

definition example_process :: "ppath \<Rightarrow> ppath \<Rightarrow> nat \<Rightarrow> (error + nat) \<times> nat" where
  "example_process csv_dir out_path calls =
     (if name (parent csv_dir) = ''broken'' then (Inl (LibraryError ''bill_id''), Suc calls)
      else (Inr 7, Suc calls))"

definition example_process2 :: "ppath \<Rightarrow> ppath \<Rightarrow> nat \<Rightarrow> (error + ppath) \<times> nat" where
  "example_process2 csv_dir out_dir calls =
     (if name (parent csv_dir) = ''broken'' then (Inl (LibraryError ''bill_id''), Suc calls)
      else (Inr (joinpath out_dir (Path (name (parent (parent csv_dir)) @ ''.csv''))), Suc calls))"

text \<open>
  The dataset of the scenario in the specification: bill 10 with sponsors at positions 1
  and 2, bill 20 with a sponsor at position 2 only, one document and two roll calls for
  bill 10, nothing else for bill 20.
\<close>

definition scenario :: "(int, int, string) tables" where
  "scenario =
     \<lparr> bills = [\<lparr>bill_id = Some 10, other_columns = ''HB1''\<rparr>, \<lparr>bill_id = Some 20, other_columns = ''SB2''\<rparr>],
       people = [\<lparr>people_id = Some 1, person_name = Some ''Ada'', party = Some ''D''\<rparr>,
                 \<lparr>people_id = Some 2, person_name = Some ''Bob'', party = Some ''R''\<rparr>],
       sponsors = [\<lparr>sp_bill_id = Some 10, sp_people_id = Some 2, position = Some 2\<rparr>,
                   \<lparr>sp_bill_id = Some 20, sp_people_id = Some 2, position = Some 2\<rparr>,
                   \<lparr>sp_bill_id = Some 10, sp_people_id = Some 1, position = Some 1\<rparr>],
       history = [\<lparr>hi_bill_id = Some 10, date = Some ''2021-02-01'', sequence = Some 2, action = Some ''Passed''\<rparr>,
                  \<lparr>hi_bill_id = Some 10, date = Some ''2021-01-05'', sequence = Some 1, action = Some ''Introduced''\<rparr>],
       documents = [\<lparr>do_bill_id = Some 10, document_type = Some ''Fiscal Note'', url = Some ''http://x/1''\<rparr>],
       rollcalls = [\<lparr>rc_bill_id = Some 10, roll_call_id = Some 7, yea = 30, nay = 5\<rparr>,
                    \<lparr>rc_bill_id = Some 10, roll_call_id = Some 8, yea = 20, nay = 4\<rparr>] \<rparr>"

definition unnumbered_rollcall :: "(int, int, string) tables" where
  "unnumbered_rollcall =
     \<lparr> bills = [\<lparr>bill_id = Some 10, other_columns = ''HB1''\<rparr>],
       people = [],
       sponsors = [],
       history = [],
       documents = [],
       rollcalls = [\<lparr>rc_bill_id = Some 10, roll_call_id = None, yea = 3, nay = 2\<rparr>] \<rparr>"

section \<open>Properties: the state code of a dataset directory\<close>

lemma is_letter_simps:
  "is_letter CHR ''N''" "is_letter CHR ''Y''" "\<not> is_letter CHR ''.''"
  by (simp_all add: is_letter_def less_eq_char_def)

text \<open>
  C5.  The state code is the name of the directory two levels above the dataset directory
  with every non-letter removed, in every implementation of the aggregator.  The
  implementation in \<^verbatim>\<open>concat_with_join_legiscan.py\<close> does so, the one in
  \<^verbatim>\<open>join_legiscan_csvs.py\<close> does not: for the dataset directory
  \<^verbatim>\<open>/bulk/N.Y./2021-2022_Session/csv\<close> the first gives \<^verbatim>\<open>NY\<close> and the second \<^verbatim>\<open>N.Y.\<close>.
\<close>

theorem state_code_join_script_keeps_non_letters:
  "state_code (Path ''/bulk/N.Y./2021-2022_Session/csv'') = ''NY'' \<and>
   state_code_join_script (Path ''/bulk/N.Y./2021-2022_Session/csv'') = ''N.Y.'' \<and>
   state_code_join_script (Path ''/bulk/N.Y./2021-2022_Session/csv'')
     \<noteq> letters_only (name (parent (parent (Path ''/bulk/N.Y./2021-2022_Session/csv''))))"
  by (simp add: state_code_def state_code_join_script_def Path_def name_def parent_def
      letters_only_def is_letter_simps)

section \<open>Properties: aggregate mode of the corpus builder\<close>

lemma length_duplicated: "length (duplicated seen rs) = length rs"
  by (induction rs arbitrary: seen) auto

lemma nth_duplicated:
  "i < length rs \<Longrightarrow> duplicated seen rs ! i \<longleftrightarrow> rs ! i \<in> set seen \<union> set (take i rs)"
proof (induction rs arbitrary: seen i)
  case Nil
  then show ?case by simp
next
  case (Cons r rs)
  show ?case
  proof (cases i)
    case 0
    then show ?thesis by simp
  next
    case (Suc k)
    with Cons.prems have "k < length rs" by simp
    from Cons.IH [OF this, of "r # seen"] Suc show ?thesis by auto
  qed
qed

lemma zip_as_index_map:
  "length xs = length bs \<Longrightarrow> zip xs bs = map (\<lambda>i. (xs ! i, bs ! i)) [0..<length xs]"
  by (rule nth_equalityI) auto

lemma drop_duplicates_index:
  "drop_duplicates rows =
     map (nth rows) (filter (\<lambda>i. rows ! i \<notin> set (take i rows)) [0..<length rows])"
proof -
  let ?bs = "duplicated [] rows"
  have "zip rows ?bs = map (\<lambda>i. (rows ! i, ?bs ! i)) [0..<length rows]"
    by (rule zip_as_index_map) (simp add: length_duplicated)
  then have "drop_duplicates rows =
      map (nth rows) (filter (\<lambda>i. \<not> ?bs ! i) [0..<length rows])"
    by (simp add: drop_duplicates_def filter_map comp_def)
  also have "filter (\<lambda>i. \<not> ?bs ! i) [0..<length rows] =
      filter (\<lambda>i. rows ! i \<notin> set (take i rows)) [0..<length rows]"
    by (rule filter_cong) (auto simp: nth_duplicated)
  finally show ?thesis .
qed

lemma drop_duplicates_count:
  "length rows = length (drop_duplicates rows)
     + length (filter (\<lambda>i. rows ! i \<in> set (take i rows)) [0..<length rows])"
proof -
  have "length [0..<length rows] =
      length (filter (\<lambda>i. rows ! i \<in> set (take i rows)) [0..<length rows])
      + length (filter (\<lambda>i. \<not> rows ! i \<in> set (take i rows)) [0..<length rows])"
    by (rule sum_length_filter_compl [symmetric])
  then show ?thesis by (simp add: drop_duplicates_index)
qed

text \<open>
  C8.  Aggregate-mode deduplication removes exactly the rows that are equal, in every
  column, to an earlier row of the concatenated table: the rows written are the rows at
  the positions \<open>i\<close> with no equal row before \<open>i\<close>, in order; the count after is at most
  the count before; and the reported difference is the number of positions that do have
  an equal row before them.
\<close>

theorem dedup_removes_exactly_later_duplicates:
  assumes "concat_legiscan_combined reads = Written out b a r"
    and "combined = concat [df. Inr df \<leftarrow> reads]"
  shows "out = map (nth combined)
             (filter (\<lambda>i. combined ! i \<notin> set (take i combined)) [0..<length combined]) \<and>
         b = length combined \<and> a = length out \<and> a \<le> b \<and> r = int b - int a \<and>
         r = int (length (filter (\<lambda>i. combined ! i \<in> set (take i combined))
                    [0..<length combined]))"
proof -
  from assms have out: "out = drop_duplicates combined" and b: "b = length combined"
    and a: "a = length (drop_duplicates combined)" and r: "r = int b - int a"
    by (auto simp: concat_legiscan_combined_def Let_def split: if_splits)
  have 1: "out = map (nth combined)
             (filter (\<lambda>i. combined ! i \<notin> set (take i combined)) [0..<length combined])"
    using out by (simp add: drop_duplicates_index)
  have 2: "a = length out" using a out by simp
  have 3: "a \<le> b" using a b drop_duplicates_count [of combined] by simp
  have 4: "r = int (length (filter (\<lambda>i. combined ! i \<in> set (take i combined))
                    [0..<length combined]))"
    using r a b drop_duplicates_count [of combined] by simp
  show ?thesis
    by (intro conjI 1 b 2 3 r 4)
qed

theorem dedup_removes_exactly_later_duplicates_witness:
  "concat_legiscan_combined [Inr [1, 2, 1 :: int], Inl (LibraryError ''EmptyDataError''), Inr [2, 3]]
     = Written [1, 2, 3] 5 3 2 \<and>
   [1, 2, 3 :: int] = map (nth [1, 2, 1, 2, 3])
       (filter (\<lambda>i. [1, 2, 1, 2, 3 :: int] ! i \<notin> set (take i [1, 2, 1, 2, 3]))
          [0..<length [1, 2, 1, 2, 3 :: int]]) \<and>
   (2 :: int) = int (length (filter (\<lambda>i. [1, 2, 1, 2, 3 :: int] ! i \<in> set (take i [1, 2, 1, 2, 3]))
       [0..<length [1, 2, 1, 2, 3 :: int]]))"
proof -
  have run: "concat_legiscan_combined
      [Inr [1, 2, 1 :: int], Inl (LibraryError ''EmptyDataError''), Inr [2, 3]]
     = Written [1, 2, 3] 5 3 2"
    by (simp add: concat_legiscan_combined_def drop_duplicates_def)
  have cat: "[1, 2, 1, 2, 3 :: int]
      = concat [df. Inr df \<leftarrow> [Inr [1, 2, 1 :: int], Inl (LibraryError ''EmptyDataError''), Inr [2, 3]]]"
    by simp
  from dedup_removes_exactly_later_duplicates [OF run cat] run
  show ?thesis by blast
qed

section \<open>Properties: safe extraction\<close>

subsection \<open>Resolved paths\<close>

lemma normalise_aux_no_dotdot:
  "''..'' \<notin> set acc \<Longrightarrow>
   ''..'' \<notin> set (foldl (\<lambda>acc c. if c = ''..'' then butlast acc else acc @ [c]) acc cs)"
proof (induction cs arbitrary: acc)
  case Nil
  then show ?case by simp
next
  case (Cons c cs)
  have "''..'' \<notin> set (butlast acc)"
    using Cons.prems by (meson in_set_butlastD)
  with Cons show ?case by simp
qed

lemma normalise_aux_id:
  "''..'' \<notin> set cs \<Longrightarrow>
   foldl (\<lambda>acc c. if c = ''..'' then butlast acc else acc @ [c]) acc cs = acc @ cs"
  by (induction cs arbitrary: acc) auto

lemma normalise_idem: "normalise (normalise cs) = normalise cs"
proof -
  have "''..'' \<notin> set (normalise cs)"
    unfolding normalise_def by (rule normalise_aux_no_dotdot) simp
  then show ?thesis
    using normalise_aux_id [of "normalise cs" "[]"] by (simp add: normalise_def)
qed

lemma resolve_abs_path [simp]: "resolve cwd (abs_path (resolve cwd' p)) = resolve cwd' p"
  by (simp add: resolve_def abs_path_def normalise_idem)

subsection \<open>What creating directories and writing files leave unchanged\<close>

lemma os_mkdir_Inr:
  "os_mkdir fs p = Inr fs' \<Longrightarrow> node_at fs p = None \<and> fs' = AList.update p Dir fs"
  by (auto simp: os_mkdir_def split: option.splits)

lemma node_at_update:
  "node_at (AList.update p n fs) q = (if q = [] then Some Dir else if q = p then Some n else node_at fs q)"
  by (simp add: node_at_def update_conv')

lemma only_new_dirs_refl: "only_new_dirs fs fs"
  by (simp add: only_new_dirs_def)

lemma only_new_dirs_trans:
  assumes "only_new_dirs a b" and "only_new_dirs b c"
  shows "only_new_dirs a c"
  unfolding only_new_dirs_def
proof
  fix q
  from assms(1) have 1: "node_at b q = node_at a q \<or> (node_at a q = None \<and> node_at b q = Some Dir)"
    by (simp add: only_new_dirs_def)
  from assms(2) have 2: "node_at c q = node_at b q \<or> (node_at b q = None \<and> node_at c q = Some Dir)"
    by (simp add: only_new_dirs_def)
  from 1 2 show "node_at c q = node_at a q \<or> (node_at a q = None \<and> node_at c q = Some Dir)"
    by auto
qed

lemma os_mkdir_only_new_dirs:
  assumes "os_mkdir fs p = Inr fs'"
  shows "only_new_dirs fs fs'"
proof -
  from os_mkdir_Inr [OF assms] have none: "node_at fs p = None" and upd: "fs' = AList.update p Dir fs"
    by simp_all
  from none have "p \<noteq> []" by (auto simp: node_at_def)
  have "node_at fs' q = node_at fs q \<or> (node_at fs q = None \<and> node_at fs' q = Some Dir)" for q
  proof (cases "q = p")
    case True
    with none upd \<open>p \<noteq> []\<close> show ?thesis by (simp add: node_at_update)
  next
    case False
    with upd show ?thesis by (simp add: node_at_def update_conv')
  qed
  then show ?thesis by (simp add: only_new_dirs_def)
qed

lemma mkdir_parents_only_new_dirs:
  "mkdir_parents fs p = Inr fs' \<Longrightarrow> only_new_dirs fs fs'"
proof (induction fs p arbitrary: fs' rule: mkdir_parents.induct)
  case (1 fs p)
  show ?case
  proof (cases "os_mkdir fs p")
    case (Inr a)
    with "1.prems" have "fs' = a" by (simp add: mkdir_parents.simps [of fs p])
    with Inr show ?thesis by (simp add: os_mkdir_only_new_dirs)
  next
    case (Inl e)
    show ?thesis
    proof (cases "e = FileNotFoundError \<and> p \<noteq> []")
      case False
      with Inl "1.prems" have "fs' = fs"
        by (auto simp: mkdir_parents.simps [of fs p] split: if_splits)
      then show ?thesis by (simp add: only_new_dirs_refl)
    next
      case True
      with Inl "1.prems" obtain fs1 where
        rec: "mkdir_parents fs (butlast p) = Inr fs1"
        and fin: "(case os_mkdir fs1 p of Inr fs2 \<Rightarrow> Inr fs2
                   | Inl e2 \<Rightarrow> if e2 \<noteq> FileNotFoundError \<and> is_dir fs1 p then Inr fs1 else Inl e2) = Inr fs'"
        by (auto simp: mkdir_parents.simps [of fs p] split: sum.splits)
      from "1.IH" [OF Inl _ _ rec] True have a: "only_new_dirs fs fs1" by simp
      from fin have "only_new_dirs fs1 fs'"
        by (auto simp: only_new_dirs_refl os_mkdir_only_new_dirs split: sum.splits if_splits)
      with a show ?thesis by (rule only_new_dirs_trans)
    qed
  qed
qed

lemma unchanged_outside_refl: "unchanged_outside d fs fs"
  by (simp add: unchanged_outside_def)

lemma unchanged_outside_trans:
  assumes "unchanged_outside d a b" and "unchanged_outside d b c"
  shows "unchanged_outside d a c"
  unfolding unchanged_outside_def
proof (intro allI impI)
  fix q
  assume out: "\<not> prefix d q"
  from assms(1) out
  have 1: "node_at b q = node_at a q \<or> (node_at a q = None \<and> node_at b q = Some Dir)"
    by (simp add: unchanged_outside_def)
  from assms(2) out
  have 2: "node_at c q = node_at b q \<or> (node_at b q = None \<and> node_at c q = Some Dir)"
    by (simp add: unchanged_outside_def)
  from 1 2 show "node_at c q = node_at a q \<or> (node_at a q = None \<and> node_at c q = Some Dir)"
    by auto
qed

lemma only_new_dirs_unchanged_outside: "only_new_dirs fs fs' \<Longrightarrow> unchanged_outside d fs fs'"
  by (simp add: only_new_dirs_def unchanged_outside_def)

lemma update_unchanged_outside:
  "prefix d p \<Longrightarrow> unchanged_outside d fs (AList.update p n fs)"
  by (auto simp: unchanged_outside_def node_at_def update_conv')

lemma open_write_unchanged_outside:
  "open_write fs p = Inr fs' \<Longrightarrow> prefix d p \<Longrightarrow> unchanged_outside d fs fs'"
  by (auto simp: open_write_def update_unchanged_outside split: option.splits node.splits)

subsection \<open>The branches of the loop\<close>

lemma extract_members_skip:
  "''__MACOSX'' \<in> set (parts (Path (filename member))) \<or> endswith (filename member) ''.DS_Store'' \<Longrightarrow>
   extract_members cwd (member # rest) dest_dir fs = extract_members cwd rest dest_dir fs"
  by (auto simp: Let_def extract_members.simps(2))

lemma extract_members_unsafe:
  "\<not> (''__MACOSX'' \<in> set (parts (Path (filename member))) \<or> endswith (filename member) ''.DS_Store'') \<Longrightarrow>
   \<not> prefix (resolve cwd dest_dir) (resolve cwd (joinpath dest_dir (Path (filename member)))) \<Longrightarrow>
   extract_members cwd (member # rest) dest_dir fs = (fs, Some (UnsafeEntry (filename member)))"
  by (simp add: Let_def is_within_directory_def extract_members.simps(2))

lemma extract_members_entry:
  "\<not> (''__MACOSX'' \<in> set (parts (Path (filename member))) \<or> endswith (filename member) ''.DS_Store'') \<Longrightarrow>
   prefix (resolve cwd dest_dir) (resolve cwd (joinpath dest_dir (Path (filename member)))) \<Longrightarrow>
   out_path = resolve cwd (joinpath dest_dir (Path (filename member))) \<Longrightarrow>
   extract_members cwd (member # rest) dest_dir fs =
     (if member_is_dir member then
        (case mkdir_parents fs out_path of
           Inl e \<Rightarrow> (fs, Some e)
         | Inr fs1 \<Rightarrow> extract_members cwd rest dest_dir fs1)
      else
        (case mkdir_parents fs (butlast out_path) of
           Inl e \<Rightarrow> (fs, Some e)
         | Inr fs1 \<Rightarrow>
             (case stream member of
                Unreadable e \<Rightarrow> (fs1, Some e)
              | Readable data \<Rightarrow>
                  (case open_write fs1 out_path of
                     Inl e \<Rightarrow> (fs1, Some e)
                   | Inr fs2 \<Rightarrow> extract_members cwd rest dest_dir (write_bytes fs2 out_path data))
              | ReadableThenError data e \<Rightarrow>
                  (case open_write fs1 out_path of
                     Inl e' \<Rightarrow> (fs1, Some e')
                   | Inr fs2 \<Rightarrow> (write_bytes fs2 out_path data, Some e)))))"
  by hypsubst (simp add: Let_def is_within_directory_def extract_members.simps(2))

lemma extract_members_append:
  "extract_members cwd (pre @ post) dest_dir fs =
     (case extract_members cwd pre dest_dir fs of
        (fs1, None) \<Rightarrow> extract_members cwd post dest_dir fs1
      | (fs1, Some e) \<Rightarrow> (fs1, Some e))"
proof (induction pre arbitrary: fs)
  case Nil
  then show ?case by simp
next
  case (Cons member rest)
  then show ?case
    by (simp add: extract_members.simps(2) Let_def split: sum.splits member_stream.splits)
qed

lemma extract_members_unchanged_outside:
  "extract_members cwd members dest_dir fs = (fs', r) \<Longrightarrow>
   unchanged_outside (resolve cwd dest_dir) fs fs'"
proof (induction members arbitrary: fs)
  case Nil
  then show ?case by (simp add: unchanged_outside_refl)
next
  case (Cons member rest)
  let ?d = "resolve cwd dest_dir"
  let ?out = "resolve cwd (joinpath dest_dir (Path (filename member)))"
  show ?case
  proof (cases "''__MACOSX'' \<in> set (parts (Path (filename member)))
                \<or> endswith (filename member) ''.DS_Store''")
    case True
    with Cons.prems have "extract_members cwd rest dest_dir fs = (fs', r)"
      by (simp add: extract_members_skip)
    then show ?thesis by (rule Cons.IH)
  next
    case junk: False
    show ?thesis
    proof (cases "prefix ?d ?out")
      case False
      with junk Cons.prems have "fs' = fs" by (simp add: extract_members_unsafe)
      then show ?thesis by (simp add: unchanged_outside_refl)
    next
      case within: True
      note eq = Cons.prems [unfolded extract_members_entry [OF junk within refl]]
      show ?thesis
      proof (cases "member_is_dir member")
        case True
        show ?thesis
        proof (cases "mkdir_parents fs ?out")
          case (Inl e)
          with eq True have "fs' = fs" by simp
          then show ?thesis by (simp add: unchanged_outside_refl)
        next
          case (Inr fs1)
          with eq True have "extract_members cwd rest dest_dir fs1 = (fs', r)" by simp
          then have "unchanged_outside ?d fs1 fs'" by (rule Cons.IH)
          moreover from Inr have "unchanged_outside ?d fs fs1"
            by (intro only_new_dirs_unchanged_outside mkdir_parents_only_new_dirs)
          ultimately show ?thesis by (rule unchanged_outside_trans [rotated])
        qed
      next
        case isfile: False
        show ?thesis
        proof (cases "mkdir_parents fs (butlast ?out)")
          case (Inl e)
          with eq isfile have "fs' = fs" by simp
          then show ?thesis by (simp add: unchanged_outside_refl)
        next
          case mk: (Inr fs1)
          from mk have a: "unchanged_outside ?d fs fs1"
            by (intro only_new_dirs_unchanged_outside mkdir_parents_only_new_dirs)
          have step: "unchanged_outside ?d fs1 fs'"
          proof (cases "stream member")
            case (Unreadable e)
            with eq isfile mk have "fs' = fs1" by simp
            then show ?thesis by (simp add: unchanged_outside_refl)
          next
            case (Readable data)
            show ?thesis
            proof (cases "open_write fs1 ?out")
              case (Inl e)
              with Readable eq isfile mk have "fs' = fs1" by simp
              then show ?thesis by (simp add: unchanged_outside_refl)
            next
              case (Inr fs2)
              with Readable eq isfile mk
              have "extract_members cwd rest dest_dir (write_bytes fs2 ?out data) = (fs', r)"
                by simp
              then have "unchanged_outside ?d (write_bytes fs2 ?out data) fs'" by (rule Cons.IH)
              moreover have "unchanged_outside ?d fs2 (write_bytes fs2 ?out data)"
                unfolding write_bytes_def using within by (rule update_unchanged_outside)
              moreover have "unchanged_outside ?d fs1 fs2"
                using Inr within by (rule open_write_unchanged_outside)
              ultimately show ?thesis by (meson unchanged_outside_trans)
            qed
          next
            case (ReadableThenError data e)
            show ?thesis
            proof (cases "open_write fs1 ?out")
              case (Inl e)
              with ReadableThenError eq isfile mk have "fs' = fs1" by simp
              then show ?thesis by (simp add: unchanged_outside_refl)
            next
              case (Inr fs2)
              with ReadableThenError eq isfile mk
              have "fs' = write_bytes fs2 ?out data" by simp
              moreover have "unchanged_outside ?d fs2 (write_bytes fs2 ?out data)"
                unfolding write_bytes_def using within by (rule update_unchanged_outside)
              moreover have "unchanged_outside ?d fs1 fs2"
                using Inr within by (rule open_write_unchanged_outside)
              ultimately show ?thesis by (meson unchanged_outside_trans)
            qed
          qed
          from a step show ?thesis by (rule unchanged_outside_trans)
        qed
      qed
    qed
  qed
qed

text \<open>
  C10.  An entry with \<^verbatim>\<open>__MACOSX\<close> among the components of its path, or with a name that ends
  in \<^verbatim>\<open>.DS_Store\<close>, is skipped before the containment check: extracting the archive is
  extracting the archive without that entry, so the entry creates no file and no directory
  and raises nothing, whatever its target path is (also one outside the destination).
\<close>

theorem junk_entry_skipped_before_containment_check:
  assumes "''__MACOSX'' \<in> set (parts (Path (filename member)))
           \<or> endswith (filename member) ''.DS_Store''"
    and "read_file fs (resolve cwd zip_path) = Inr bytes"
    and "infolist bytes = Inr (pre @ member # post)"
  shows "safe_extract_zip infolist cwd zip_path dest_dir fs
           = extract_members cwd (pre @ post) dest_dir fs"
proof -
  have "extract_members cwd (pre @ member # post) dest_dir fs
          = extract_members cwd (pre @ post) dest_dir fs"
    by (simp add: extract_members_append [of cwd pre] extract_members_skip [OF assms(1)]
        split: prod.splits option.splits)
  with assms(2,3) show ?thesis by (simp add: safe_extract_zip_def)
qed

lemma Path_junk_example:
  "Path ''../../__MACOSX/evil'' = \<lparr>rooted = False, parts = [''..'', ''..'', ''__MACOSX'', ''evil'']\<rparr>"
  "Path ''/data/x'' = \<lparr>rooted = True, parts = [''data'', ''x'']\<rparr>"
  "Path ''/data/x.zip'' = \<lparr>rooted = True, parts = [''data'', ''x.zip'']\<rparr>"
  by (simp_all add: Path_def)

theorem junk_entry_skipped_before_containment_check_witness:
  "\<not> is_within_directory [] (Path ''/data/x'')
        (abs_path (resolve [] (joinpath (Path ''/data/x'') (Path ''../../__MACOSX/evil'')))) \<and>
   safe_extract_zip (\<lambda>bytes. Inr [\<lparr>filename = ''../../__MACOSX/evil'', stream = Readable ''payload''\<rparr>])
      [] (Path ''/data/x.zip'') (Path ''/data/x'')
      [([''data''], Dir), ([''data'', ''x.zip''], File ''PK''), ([''data'', ''x''], Dir)]
     = ([([''data''], Dir), ([''data'', ''x.zip''], File ''PK''), ([''data'', ''x''], Dir)], None)"
proof -
  let ?m = "\<lparr>filename = ''../../__MACOSX/evil'', stream = Readable ''payload''\<rparr>"
  let ?fs = "[([''data''], Dir), ([''data'', ''x.zip''], File ''PK''), ([''data'', ''x''], Dir)]"
  have junk: "''__MACOSX'' \<in> set (parts (Path (filename ?m))) \<or> endswith (filename ?m) ''.DS_Store''"
    by (simp add: Path_junk_example)
  have rd: "read_file ?fs (resolve [] (Path ''/data/x.zip'')) = Inr ''PK''"
    by (simp add: Path_junk_example resolve_def normalise_def read_file_def node_at_def)
  have il: "(\<lambda>bytes. Inr [?m]) ''PK'' = Inr ([] @ ?m # [])"
    by simp
  have esc: "\<not> is_within_directory [] (Path ''/data/x'')
        (abs_path (resolve [] (joinpath (Path ''/data/x'') (Path ''../../__MACOSX/evil''))))"
    by (simp add: is_within_directory_def Path_junk_example joinpath_def
        resolve_def normalise_def abs_path_def)
  from junk_entry_skipped_before_containment_check [OF junk rd il, of "Path ''/data/x''"] esc
  show ?thesis by simp
qed

text \<open>
  C1, as stated: for every entry whose resolved target escapes the destination, extraction
  fails with the unsafe-entry error.  It does not for an entry that the loop skips: the
  entry \<^verbatim>\<open>../outside/.DS_Store\<close> resolves to \<^verbatim>\<open>/data/outside/.DS_Store\<close>, outside \<^verbatim>\<open>/data/x\<close>,
  and the extraction ends without an exception.
\<close>

theorem skipped_entry_escapes_without_error:
  "\<not> is_within_directory [] (Path ''/data/x'')
        (abs_path (resolve [] (joinpath (Path ''/data/x'') (Path ''../outside/.DS_Store'')))) \<and>
   safe_extract_zip (\<lambda>bytes. Inr [\<lparr>filename = ''../outside/.DS_Store'', stream = Readable ''payload''\<rparr>])
      [] (Path ''/data/x.zip'') (Path ''/data/x'')
      [([''data''], Dir), ([''data'', ''x.zip''], File ''PK''), ([''data'', ''x''], Dir)]
     = ([([''data''], Dir), ([''data'', ''x.zip''], File ''PK''), ([''data'', ''x''], Dir)], None)"
  by code_simp

text \<open>
  C1, amended.  For an entry that is not skipped and whose resolved target escapes the
  destination: when the entries before it were extracted without an exception, the
  extraction stops at it with the unsafe-entry error that names it, in the file system
  the earlier entries left (no later entry is looked at); and in that file system every
  path outside the destination holds what it held before, or is a directory made where
  nothing was (an ancestor of the destination): no file outside the destination is
  written.
\<close>

theorem unsafe_entry_aborts_extraction:
  assumes "\<not> (''__MACOSX'' \<in> set (parts (Path (filename member)))
           \<or> endswith (filename member) ''.DS_Store'')"
    and "\<not> is_within_directory cwd dest_dir
             (abs_path (resolve cwd (joinpath dest_dir (Path (filename member)))))"
    and "read_file fs (resolve cwd zip_path) = Inr bytes"
    and "infolist bytes = Inr (pre @ member # post)"
    and "extract_members cwd pre dest_dir fs = (fs1, None)"
  shows "safe_extract_zip infolist cwd zip_path dest_dir fs
           = (fs1, Some (UnsafeEntry (filename member))) \<and>
         (\<forall>q. \<not> prefix (resolve cwd dest_dir) q \<longrightarrow>
            node_at fs1 q = node_at fs q \<or> (node_at fs q = None \<and> node_at fs1 q = Some Dir))"
proof -
  from assms(2) have esc: "\<not> prefix (resolve cwd dest_dir)
      (resolve cwd (joinpath dest_dir (Path (filename member))))"
    by (simp add: is_within_directory_def)
  have "extract_members cwd (pre @ member # post) dest_dir fs
          = (fs1, Some (UnsafeEntry (filename member)))"
    by (simp add: extract_members_append [of cwd pre] assms(5)
        extract_members_unsafe [OF assms(1) esc])
  with assms(3,4) have run: "safe_extract_zip infolist cwd zip_path dest_dir fs
           = (fs1, Some (UnsafeEntry (filename member)))"
    by (simp add: safe_extract_zip_def)
  from extract_members_unchanged_outside [OF assms(5)]
  have "unchanged_outside (resolve cwd dest_dir) fs fs1" .
  with run show ?thesis by (simp add: unchanged_outside_def)
qed

lemma extract_example:
  "extract_members [] [\<lparr>filename = ''a/b.csv'', stream = Readable ''1,2''\<rparr>] (Path ''/data/x'')
      [([''data''], Dir), ([''data'', ''x.zip''], File ''PK''), ([''data'', ''x''], Dir)]
   = ([([''data''], Dir), ([''data'', ''x.zip''], File ''PK''), ([''data'', ''x''], Dir),
       ([''data'', ''x'', ''a''], Dir), ([''data'', ''x'', ''a'', ''b.csv''], File ''1,2'')], None)"
  by code_simp

theorem unsafe_entry_aborts_extraction_witness:
  "safe_extract_zip
      (\<lambda>bytes. Inr [\<lparr>filename = ''a/b.csv'', stream = Readable ''1,2''\<rparr>,
                     \<lparr>filename = ''../../etc/passwd'', stream = Readable ''root''\<rparr>,
                     \<lparr>filename = ''c.csv'', stream = Readable ''3,4''\<rparr>])
      [] (Path ''/data/x.zip'') (Path ''/data/x'')
      [([''data''], Dir), ([''data'', ''x.zip''], File ''PK''), ([''data'', ''x''], Dir)]
     = ([([''data''], Dir), ([''data'', ''x.zip''], File ''PK''), ([''data'', ''x''], Dir),
         ([''data'', ''x'', ''a''], Dir), ([''data'', ''x'', ''a'', ''b.csv''], File ''1,2'')],
        Some (UnsafeEntry ''../../etc/passwd'')) \<and>
   node_at [([''data''], Dir), ([''data'', ''x.zip''], File ''PK''), ([''data'', ''x''], Dir),
         ([''data'', ''x'', ''a''], Dir), ([''data'', ''x'', ''a'', ''b.csv''], File ''1,2'')]
      [''etc'', ''passwd''] = None"
proof -
  let ?ok = "\<lparr>filename = ''a/b.csv'', stream = Readable ''1,2''\<rparr>"
  let ?bad = "\<lparr>filename = ''../../etc/passwd'', stream = Readable ''root''\<rparr>"
  let ?late = "\<lparr>filename = ''c.csv'', stream = Readable ''3,4''\<rparr>"
  let ?fs = "[([''data''], Dir), ([''data'', ''x.zip''], File ''PK''), ([''data'', ''x''], Dir)]"
  have notjunk: "\<not> (''__MACOSX'' \<in> set (parts (Path (filename ?bad)))
      \<or> endswith (filename ?bad) ''.DS_Store'')"
    by code_simp
  have esc: "\<not> is_within_directory [] (Path ''/data/x'')
      (abs_path (resolve [] (joinpath (Path ''/data/x'') (Path (filename ?bad)))))"
    by code_simp
  have rd: "read_file ?fs (resolve [] (Path ''/data/x.zip'')) = Inr ''PK''"
    by code_simp
  have il: "(\<lambda>bytes. Inr [?ok, ?bad, ?late]) ''PK'' = Inr ([?ok] @ ?bad # [?late])"
    by simp
  from unsafe_entry_aborts_extraction [OF notjunk esc rd il extract_example]
  show ?thesis by (simp add: node_at_def)
qed

section \<open>Properties: the archive resolver\<close>












section \<open>Properties: dataset discovery\<close>

lemma normalise_append:
  "''..'' \<notin> set rel \<Longrightarrow> normalise (xs @ rel) = normalise xs @ rel"
  by (simp add: normalise_def normalise_aux_id)

lemma resolve_below:
  "''..'' \<notin> set rel \<Longrightarrow> resolve cwd (root\<lparr>parts := parts root @ rel\<rparr>) = resolve cwd root @ rel"
  using normalise_append [of rel "(if rooted root then [] else cwd) @ parts root"]
  by (simp add: resolve_def)

lemma below_iff:
  "below fs r k \<longleftrightarrow>
     (\<exists>rel. k = r @ rel \<and> rel \<noteq> [] \<and> ''..'' \<notin> set rel \<and>
        (\<forall>j < length rel. is_dir fs (r @ take j rel)))"
proof
  assume b: "below fs r k"
  then obtain rel where k: "k = r @ rel" and ne: "rel \<noteq> []"
    by (auto simp: below_def strict_prefix_def prefix_def)
  from b k have dd: "''..'' \<notin> set rel" by (simp add: below_def)
  have "is_dir fs (r @ take j rel)" if "j < length rel" for j
  proof -
    from b have "\<forall>i \<in> set [length r..<length k]. is_dir fs (take i k)"
      by (simp add: below_def list_all_iff)
    moreover from that k have "length r + j \<in> set [length r..<length k]" by simp
    ultimately have "is_dir fs (take (length r + j) k)" by blast
    with k show ?thesis by simp
  qed
  with k ne dd show "\<exists>rel. k = r @ rel \<and> rel \<noteq> [] \<and> ''..'' \<notin> set rel \<and>
        (\<forall>j < length rel. is_dir fs (r @ take j rel))" by blast
next
  assume "\<exists>rel. k = r @ rel \<and> rel \<noteq> [] \<and> ''..'' \<notin> set rel \<and>
        (\<forall>j < length rel. is_dir fs (r @ take j rel))"
  then obtain rel where k: "k = r @ rel" and ne: "rel \<noteq> []" and dd: "''..'' \<notin> set rel"
    and dirs: "\<And>j. j < length rel \<Longrightarrow> is_dir fs (r @ take j rel)" by blast
  have "is_dir fs (take i k)" if "i \<in> set [length r..<length k]" for i
  proof -
    from that k have "length r \<le> i" and "i - length r < length rel" by auto
    with dirs [of "i - length r"] k show ?thesis by simp
  qed
  with k ne dd show "below fs r k"
    by (auto simp: below_def list_all_iff strict_prefix_def)
qed

lemma rglob_all_iff:
  "p \<in> set (rglob_all cwd root fs) \<longleftrightarrow>
     (\<exists>rel. p = root\<lparr>parts := parts root @ rel\<rparr> \<and> resolve cwd root @ rel \<in> fst ` set fs \<and>
        rel \<noteq> [] \<and> ''..'' \<notin> set rel \<and>
        (\<forall>j < length rel. is_dir fs (resolve cwd root @ take j rel)))"
  (is "?lhs \<longleftrightarrow> ?rhs")
proof
  let ?r = "resolve cwd root"
  assume ?lhs
  then obtain k where k: "k \<in> fst ` set fs" and b: "below fs ?r k"
    and p: "p = root\<lparr>parts := parts root @ drop (length ?r) k\<rparr>"
    by (auto simp: rglob_all_def Let_def)
  from b obtain rel where rel: "k = ?r @ rel" and ne: "rel \<noteq> []" and dd: "''..'' \<notin> set rel"
    and dirs: "\<forall>j < length rel. is_dir fs (?r @ take j rel)"
    unfolding below_iff by (elim exE conjE)
  have p': "p = root\<lparr>parts := parts root @ rel\<rparr>" unfolding p rel by simp
  have k': "?r @ rel \<in> fst ` set fs" using k unfolding rel .
  show ?rhs
    by (rule exI [of _ rel]) (intro conjI p' k' ne dd dirs)
next
  let ?r = "resolve cwd root"
  assume ?rhs
  then obtain rel where p: "p = root\<lparr>parts := parts root @ rel\<rparr>"
    and k: "?r @ rel \<in> fst ` set fs" and ne: "rel \<noteq> []" and dd: "''..'' \<notin> set rel"
    and dirs: "\<forall>j < length rel. is_dir fs (?r @ take j rel)"
    by (elim exE conjE)
  have b: "below fs ?r (?r @ rel)"
    unfolding below_iff by (rule exI [of _ rel]) (intro conjI refl ne dd dirs)
  have "?r @ rel \<in> set (filter (below fs ?r) (remdups (map fst fs)))"
    using k b by simp
  then have "(\<lambda>k. root\<lparr>parts := parts root @ drop (length ?r) k\<rparr>) (?r @ rel)
      \<in> set (rglob_all cwd root fs)"
    unfolding rglob_all_def Let_def set_map by (rule imageI)
  then show ?lhs unfolding p by simp
qed

lemma under_root_inject:
  "root\<lparr>parts := parts root @ rel\<rparr> = root\<lparr>parts := parts root @ rel'\<rparr> \<longleftrightarrow> rel = rel'"
proof
  assume "root\<lparr>parts := parts root @ rel\<rparr> = root\<lparr>parts := parts root @ rel'\<rparr>"
  then have "parts (root\<lparr>parts := parts root @ rel\<rparr>) = parts (root\<lparr>parts := parts root @ rel'\<rparr>)"
    by simp
  then show "rel = rel'" by simp
qed simp

lemma Path_required_file:
  "f \<in> set REQUIRED_FILES \<Longrightarrow> Path f = \<lparr>rooted = False, parts = [f]\<rparr>"
  by (auto simp: REQUIRED_FILES_def Path_def)

lemma required_file_resolved:
  assumes "f \<in> set REQUIRED_FILES" and "''..'' \<notin> set rel"
  shows "resolve cwd (joinpath (root\<lparr>parts := parts root @ rel\<rparr>) (Path f)) = resolve cwd root @ rel @ [f]"
proof -
  from assms(1) have "f \<noteq> ''..''" by (auto simp: REQUIRED_FILES_def)
  with assms(2) have "''..'' \<notin> set (rel @ [f])" by simp
  from resolve_below [OF this, of cwd root] assms(1) show ?thesis
    by (simp add: joinpath_def Path_required_file)
qed

lemma is_dir_bound:
  assumes "is_dir fs k" and "k \<noteq> []"
  shows "k \<in> fst ` set fs"
proof -
  from assms have "map_of fs k = Some Dir" by (simp add: is_dir_def node_at_def)
  then have "(k, Dir) \<in> set fs" by (rule map_of_SomeD)
  then have "fst (k, Dir) \<in> fst ` set fs" by (rule imageI)
  then show ?thesis by simp
qed

text \<open>
  C6, as stated: a directory is returned if and only if all six required files are files
  directly inside it.  The root itself is a directory that is never returned, since
  \<^verbatim>\<open>rglob("*")\<close> yields only what lies below it: for a root that holds the six files,
  discovery returns nothing.
\<close>

theorem root_dataset_not_discovered:
  "is_dir example_root_dataset (resolve [] (Path ''/bulk'')) \<and>
   list_all (\<lambda>f. is_file example_root_dataset (resolve [] (joinpath (Path ''/bulk'') (Path f))))
     REQUIRED_FILES \<and>
   discover_csv_dirs [] (Path ''/bulk'') example_root_dataset = []"
  by code_simp

text \<open>
  C6, amended.  Dataset discovery returns exactly the directories strictly below the root
  that directly contain all six required files: the path \<open>root / rel\<close> is returned if and
  only if \<open>rel\<close> is not empty, the root, every directory on the way and the path itself are
  directories, and each of the six names is a file directly inside it.  Every returned
  path has that form, and the result is sorted in the lexicographic order of the paths'
  components.
\<close>

theorem discover_csv_dirs_exact_and_sorted:
  "(\<forall>rel. root\<lparr>parts := parts root @ rel\<rparr> \<in> set (discover_csv_dirs cwd root fs) \<longleftrightarrow>
      rel \<noteq> [] \<and> ''..'' \<notin> set rel \<and>
      (\<forall>j \<le> length rel. is_dir fs (resolve cwd root @ take j rel)) \<and>
      (\<forall>f \<in> set REQUIRED_FILES. is_file fs (resolve cwd root @ rel @ [f]))) \<and>
   (\<forall>p \<in> set (discover_csv_dirs cwd root fs). \<exists>rel. p = root\<lparr>parts := parts root @ rel\<rparr>) \<and>
   sorted (map parts (discover_csv_dirs cwd root fs)) \<and>
   REQUIRED_FILES = [''bills.csv'', ''people.csv'', ''sponsors.csv'', ''history.csv'',
      ''documents.csv'', ''rollcalls.csv'']"
proof (intro conjI allI ballI)
  fix rel
  let ?r = "resolve cwd root"
  let ?p = "root\<lparr>parts := parts root @ rel\<rparr>"
  show "?p \<in> set (discover_csv_dirs cwd root fs) \<longleftrightarrow>
      rel \<noteq> [] \<and> ''..'' \<notin> set rel \<and>
      (\<forall>j \<le> length rel. is_dir fs (?r @ take j rel)) \<and>
      (\<forall>f \<in> set REQUIRED_FILES. is_file fs (?r @ rel @ [f]))"
  proof
    assume "?p \<in> set (discover_csv_dirs cwd root fs)"
    then have g: "?p \<in> set (rglob_all cwd root fs)"
      and d: "is_dir fs (resolve cwd ?p)"
      and f: "\<forall>f \<in> set REQUIRED_FILES. is_file fs (resolve cwd (joinpath ?p (Path f)))"
      by (auto simp: discover_csv_dirs_def list_all_iff)
    from g have ne: "rel \<noteq> []" and dd: "''..'' \<notin> set rel"
      and dirs: "\<forall>j < length rel. is_dir fs (?r @ take j rel)"
      by (auto simp: rglob_all_iff under_root_inject)
    from d dd have "is_dir fs (?r @ rel)" by (simp add: resolve_below)
    with dirs have "\<forall>j \<le> length rel. is_dir fs (?r @ take j rel)"
      by (auto simp: le_less)
    moreover from f dd have "\<forall>f \<in> set REQUIRED_FILES. is_file fs (?r @ rel @ [f])"
      by (simp add: required_file_resolved)
    ultimately show "rel \<noteq> [] \<and> ''..'' \<notin> set rel \<and>
      (\<forall>j \<le> length rel. is_dir fs (?r @ take j rel)) \<and>
      (\<forall>f \<in> set REQUIRED_FILES. is_file fs (?r @ rel @ [f]))"
      using ne dd by blast
  next
    assume a: "rel \<noteq> [] \<and> ''..'' \<notin> set rel \<and>
      (\<forall>j \<le> length rel. is_dir fs (?r @ take j rel)) \<and>
      (\<forall>f \<in> set REQUIRED_FILES. is_file fs (?r @ rel @ [f]))"
    then have ne: "rel \<noteq> []" and dd: "''..'' \<notin> set rel"
      and dirs: "\<forall>j \<le> length rel. is_dir fs (?r @ take j rel)"
      and f: "\<forall>f \<in> set REQUIRED_FILES. is_file fs (?r @ rel @ [f])" by simp_all
    from dirs have self: "is_dir fs (?r @ rel)" by auto
    with ne have "?r @ rel \<in> fst ` set fs" by (simp add: is_dir_bound)
    with ne dd dirs have "?p \<in> set (rglob_all cwd root fs)"
      by (auto simp: rglob_all_iff)
    moreover from self dd have "is_dir fs (resolve cwd ?p)" by (simp add: resolve_below)
    moreover from f dd have "\<forall>f \<in> set REQUIRED_FILES. is_file fs (resolve cwd (joinpath ?p (Path f)))"
      by (simp add: required_file_resolved)
    ultimately show "?p \<in> set (discover_csv_dirs cwd root fs)"
      by (simp add: discover_csv_dirs_def list_all_iff)
  qed
next
  fix p assume "p \<in> set (discover_csv_dirs cwd root fs)"
  then have "p \<in> set (rglob_all cwd root fs)" by (simp add: discover_csv_dirs_def)
  then show "\<exists>rel. p = root\<lparr>parts := parts root @ rel\<rparr>" by (auto simp: rglob_all_iff)
next
  show "sorted (map parts (discover_csv_dirs cwd root fs))"
    by (simp add: discover_csv_dirs_def)
next
  show "REQUIRED_FILES = [''bills.csv'', ''people.csv'', ''sponsors.csv'', ''history.csv'',
      ''documents.csv'', ''rollcalls.csv'']" by (simp add: REQUIRED_FILES_def)
qed

lemma example_bulk_discovered:
  "discover_csv_dirs [] (Path ''/bulk'') example_bulk =
     [\<lparr>rooted = True, parts = [''bulk'', ''AK'', ''s2'']\<rparr>,
      \<lparr>rooted = True, parts = [''bulk'', ''NY'', ''s1'', ''csv'']\<rparr>]"
  by code_simp

theorem discover_csv_dirs_exact_and_sorted_witness:
  "discover_csv_dirs [] (Path ''/bulk'') example_bulk =
     [\<lparr>rooted = True, parts = [''bulk'', ''AK'', ''s2'']\<rparr>,
      \<lparr>rooted = True, parts = [''bulk'', ''NY'', ''s1'', ''csv'']\<rparr>] \<and>
   is_dir example_bulk [''bulk'', ''AK''] \<and>
   is_file example_bulk [''bulk'', ''AK'', ''s2'', ''rollcalls.csv''] \<and>
   \<not> is_file example_bulk [''bulk'', ''AK'', ''s1'', ''csv'', ''rollcalls.csv''] \<and>
   [''bulk'', ''AK'', ''s2''] < [''bulk'', ''NY'', ''s1'', ''csv'']"
proof -
  let ?root = "Path ''/bulk''"
  let ?rel = "[''AK'', ''s2'']"
  have root: "?root = \<lparr>rooted = True, parts = [''bulk'']\<rparr>" by code_simp
  have r: "resolve [] ?root = [''bulk'']" by code_simp
  have "?root\<lparr>parts := parts ?root @ ?rel\<rparr> \<in> set (discover_csv_dirs [] ?root example_bulk)"
    using example_bulk_discovered by (simp add: root)
  with discover_csv_dirs_exact_and_sorted [of ?root "[]" example_bulk]
  have dirs: "\<forall>j \<le> length ?rel. is_dir example_bulk (resolve [] ?root @ take j ?rel)"
    and files: "\<forall>f \<in> set REQUIRED_FILES. is_file example_bulk (resolve [] ?root @ ?rel @ [f])"
    by blast+
  from dirs have 1: "is_dir example_bulk [''bulk'', ''AK'']"
    unfolding r by (auto dest: spec [of _ 1])
  have "''rollcalls.csv'' \<in> set REQUIRED_FILES" by (simp add: REQUIRED_FILES_def)
  with files have 2: "is_file example_bulk [''bulk'', ''AK'', ''s2'', ''rollcalls.csv'']"
    unfolding r by auto
  have 3: "\<not> is_file example_bulk [''bulk'', ''AK'', ''s1'', ''csv'', ''rollcalls.csv'']"
    by code_simp
  from discover_csv_dirs_exact_and_sorted [of ?root "[]" example_bulk]
  have "sorted (map parts (discover_csv_dirs [] ?root example_bulk))" by blast
  then have 4: "[''bulk'', ''AK'', ''s2''] < [''bulk'', ''NY'', ''s1'', ''csv'']"
    unfolding example_bulk_discovered by (simp add: less_le)
  from example_bulk_discovered 1 2 3 4 show ?thesis by blast
qed

section \<open>Properties: raw streaming concatenation\<close>

lemma concat_loop_all_read:
  assumes "\<forall>p \<in> set ps. 3 \<le> length (parts p) \<and> rd p = Inr (header p # data p, None)"
  shows "concat_loop rd ps (header_written, out, total_rows, msgs) =
     (header_written \<or> ps \<noteq> [],
      out @ (if header_written \<or> ps = [] then [] else [header (hd ps) @ [''state'']])
        @ concat (map (\<lambda>p. map (\<lambda>row. row @
              [letters_only (name (p\<lparr>parts := take (length (parts p) - 3) (parts p)\<rparr>))]) (data p)) ps),
      total_rows + sum_list (map (\<lambda>p. length (data p)) ps),
      msgs)"
  using assms
proof (induction ps arbitrary: header_written out total_rows)
  case Nil
  then show ?case by simp
next
  case (Cons p ps)
  from Cons.prems have len: "3 \<le> length (parts p)" and rd: "rd p = Inr (header p # data p, None)"
    and rest: "\<forall>p \<in> set ps. 3 \<le> length (parts p) \<and> rd p = Inr (header p # data p, None)"
    by simp_all
  from len have par: "parents_nth p 2 = Inr (p\<lparr>parts := take (length (parts p) - 3) (parts p)\<rparr>)"
    by (simp add: parents_nth_def numeral_3_eq_3)
  show ?case
    by (simp add: par rd Cons.IH [OF rest] Let_def)
qed

lemma rglob_pattern_length:
  assumes "p \<in> set (rglob_pattern cwd root [a, b] fs)" and "parts root \<noteq> []"
  shows "3 \<le> length (parts p)"
proof -
  from assms(1) have g: "p \<in> set (rglob_all cwd root fs)"
    and s: "suffix [a, b] (drop (length (parts root)) (parts p))"
    by (simp_all add: rglob_pattern_def)
  from g obtain rel where p: "p = root\<lparr>parts := parts root @ rel\<rparr>"
    unfolding rglob_all_iff by blast
  from s p have "suffix [a, b] rel" by simp
  then have "2 \<le> length rel" by (auto simp: suffix_def)
  moreover from assms(2) have "1 \<le> length (parts root)" by (cases "parts root") simp_all
  ultimately show ?thesis using p by simp
qed

text \<open>
  The directory that the archive resolver returns has a name, so that a file found below
  it by the pattern has at least three components and \<^verbatim>\<open>parents[2]\<close> exists.
\<close>

lemma resolve_root_dir_named:
  assumes "resolve_root_dir infolist st_mtime cwd input_path fs = (fs', printed, Inr dir_path)"
  shows "parts dir_path \<noteq> []"
proof -
  have ws: "with_suffix p s = Inr q \<Longrightarrow> parts p \<noteq> [] \<and> parts q \<noteq> []" for p s q
    by (auto simp: with_suffix_def name_def Let_def split: if_splits)
  show ?thesis
  proof (cases "path_suffix input_path = ''.zip''")
    case True
    with assms obtain d where "with_suffix input_path [] = Inr d" and "dir_path = d"
      by (auto simp: resolve_root_dir_def split: sum.splits if_splits prod.splits option.splits)
    with ws show ?thesis by blast
  next
    case False
    with assms obtain z where "with_suffix input_path ''.zip'' = Inr z" and "dir_path = input_path"
      by (auto simp: resolve_root_dir_def split: sum.splits if_splits prod.splits option.splits)
    with ws show ?thesis by blast
  qed
qed

text \<open>
  C7.  With no file matching \<^verbatim>\<open>CSV/bills.csv\<close> below the root, \<^verbatim>\<open>stream_concat\<close> prints that
  none was found and leaves the file system as it is.  With \<open>N > 0\<close> such files, below a
  root that has a name, each read without an exception and each with a header row: the
  output file holds one header row, the header of the first file in sorted path order
  with \<^verbatim>\<open>state\<close> appended, followed by the data rows of every file, file by file in sorted
  path order, each row with the letters of the name of the directory three levels above
  its file appended; the count printed is the number of data rows.  Identical headers
  are the case \<open>header p = h\<close> for every file.
\<close>

theorem stream_concat_one_header_then_all_rows:
  assumes paths: "bills_paths = sort_key parts (rglob_pattern cwd root_dir [''CSV'', ''bills.csv''] fs)"
  shows
    "(bills_paths = [] \<longrightarrow>
        stream_concat csv_reader writerow cwd root_dir output_path fs = (fs, [NoBillsFound], None)) \<and>
     (bills_paths \<noteq> [] \<and> parts root_dir \<noteq> [] \<and>
      mkdir_parents fs (resolve cwd (parent output_path)) = Inr fs1 \<and>
      open_write fs1 (resolve cwd output_path) = Inr fs2 \<and>
      (\<forall>p \<in> set bills_paths. \<exists>bytes. read_file fs2 (resolve cwd p) = Inr bytes \<and>
          csv_reader bytes = (header p # data p, None)) \<longrightarrow>
        stream_concat csv_reader writerow cwd root_dir output_path fs =
          (write_bytes fs2 (resolve cwd output_path)
             (concat (map writerow
                ((header (hd bills_paths) @ [''state'']) #
                 concat (map (\<lambda>p. map (\<lambda>row. row @
                     [letters_only (name (p\<lparr>parts := take (length (parts p) - 3) (parts p)\<rparr>))])
                     (data p)) bills_paths)))),
           [DoneWrote (sum_list (map (\<lambda>p. length (data p)) bills_paths)) output_path], None) \<and>
        sorted (map parts bills_paths))"
proof (intro conjI impI)
  assume "bills_paths = []"
  then show "stream_concat csv_reader writerow cwd root_dir output_path fs = (fs, [NoBillsFound], None)"
    unfolding stream_concat_def paths [symmetric] by simp
next
  assume a: "bills_paths \<noteq> [] \<and> parts root_dir \<noteq> [] \<and>
      mkdir_parents fs (resolve cwd (parent output_path)) = Inr fs1 \<and>
      open_write fs1 (resolve cwd output_path) = Inr fs2 \<and>
      (\<forall>p \<in> set bills_paths. \<exists>bytes. read_file fs2 (resolve cwd p) = Inr bytes \<and>
          csv_reader bytes = (header p # data p, None))"
  let ?rd = "\<lambda>p. map_sum id csv_reader (read_file fs2 (resolve cwd p))"
  have "\<forall>p \<in> set bills_paths. 3 \<le> length (parts p) \<and> ?rd p = Inr (header p # data p, None)"
  proof
    fix p assume p: "p \<in> set bills_paths"
    then have "p \<in> set (rglob_pattern cwd root_dir [''CSV'', ''bills.csv''] fs)"
      unfolding paths by simp
    with a have "3 \<le> length (parts p)" by (simp add: rglob_pattern_length)
    moreover from a p have "?rd p = Inr (header p # data p, None)" by auto
    ultimately show "3 \<le> length (parts p) \<and> ?rd p = Inr (header p # data p, None)" ..
  qed
  from concat_loop_all_read [OF this, of False "[]" 0 "[]"] a
  show "stream_concat csv_reader writerow cwd root_dir output_path fs =
          (write_bytes fs2 (resolve cwd output_path)
             (concat (map writerow
                ((header (hd bills_paths) @ [''state'']) #
                 concat (map (\<lambda>p. map (\<lambda>row. row @
                     [letters_only (name (p\<lparr>parts := take (length (parts p) - 3) (parts p)\<rparr>))])
                     (data p)) bills_paths)))),
           [DoneWrote (sum_list (map (\<lambda>p. length (data p)) bills_paths)) output_path], None)"
    unfolding stream_concat_def paths [symmetric] by (simp add: Let_def)
  show "sorted (map parts bills_paths)" unfolding paths by simp
qed

lemma example_states_paths:
  "[\<lparr>rooted = True, parts = [''d'', ''x'', ''A.K'', ''s'', ''CSV'', ''bills.csv'']\<rparr>,
    \<lparr>rooted = True, parts = [''d'', ''x'', ''NY'', ''s'', ''CSV'', ''bills.csv'']\<rparr>]
   = sort_key parts (rglob_pattern [] (Path ''/d/x'') [''CSV'', ''bills.csv''] example_states)"
  by code_simp

lemma example_states_hyps:
  "parts (Path ''/d/x'') \<noteq> [] \<and>
   mkdir_parents example_states (resolve [] (parent (Path ''/d/concatenated-x/all-bills.csv'')))
     = Inr (example_states @ [([''d'', ''concatenated-x''], Dir)]) \<and>
   open_write (example_states @ [([''d'', ''concatenated-x''], Dir)])
       (resolve [] (Path ''/d/concatenated-x/all-bills.csv''))
     = Inr (example_states @ [([''d'', ''concatenated-x''], Dir),
              ([''d'', ''concatenated-x'', ''all-bills.csv''], File [])])"
  by code_simp

lemma example_states_reads:
  "read_file (example_states @ [([''d'', ''concatenated-x''], Dir),
              ([''d'', ''concatenated-x'', ''all-bills.csv''], File [])])
      (resolve [] \<lparr>rooted = True, parts = [''d'', ''x'', ''A.K'', ''s'', ''CSV'', ''bills.csv'']\<rparr>)
     = Inr ''id,t;3,c'' \<and>
   example_reader ''id,t;3,c'' = ([''id'', ''t''] # [[''3'', ''c'']], None) \<and>
   read_file (example_states @ [([''d'', ''concatenated-x''], Dir),
              ([''d'', ''concatenated-x'', ''all-bills.csv''], File [])])
      (resolve [] \<lparr>rooted = True, parts = [''d'', ''x'', ''NY'', ''s'', ''CSV'', ''bills.csv'']\<rparr>)
     = Inr ''id,t;1,a;2,b'' \<and>
   example_reader ''id,t;1,a;2,b'' = ([''id'', ''t''] # [[''1'', ''a''], [''2'', ''b'']], None)"
  by code_simp

theorem stream_concat_one_header_then_all_rows_witness:
  "stream_concat example_reader example_writerow [] (Path ''/d/x'')
      (Path ''/d/concatenated-x/all-bills.csv'') example_states
   = (example_states @ [([''d'', ''concatenated-x''], Dir),
        ([''d'', ''concatenated-x'', ''all-bills.csv''], File ''id,t,state,;3,c,AK,;1,a,NY,;2,b,NY,;'')],
      [DoneWrote 3 (Path ''/d/concatenated-x/all-bills.csv'')], None) \<and>
   stream_concat example_reader example_writerow [] (Path ''/d/x'')
      (Path ''/d/concatenated-x/all-bills.csv'') [([''d''], Dir), ([''d'', ''x''], Dir)]
   = ([([''d''], Dir), ([''d'', ''x''], Dir)], [NoBillsFound], None)"
proof -
  have none: "[] = sort_key parts (rglob_pattern [] (Path ''/d/x'') [''CSV'', ''bills.csv'']
      [([''d''], Dir), ([''d'', ''x''], Dir)])"
    by code_simp
  have empty: "stream_concat example_reader example_writerow [] (Path ''/d/x'')
      (Path ''/d/concatenated-x/all-bills.csv'') [([''d''], Dir), ([''d'', ''x''], Dir)]
   = ([([''d''], Dir), ([''d'', ''x''], Dir)], [NoBillsFound], None)"
    using stream_concat_one_header_then_all_rows [OF none] by blast
  let ?ak = "\<lparr>rooted = True, parts = [''d'', ''x'', ''A.K'', ''s'', ''CSV'', ''bills.csv'']\<rparr>"
  let ?ny = "\<lparr>rooted = True, parts = [''d'', ''x'', ''NY'', ''s'', ''CSV'', ''bills.csv'']\<rparr>"
  let ?header = "\<lambda>p :: ppath. [''id'', ''t'']"
  let ?data = "\<lambda>p. if p = ?ak then [[''3'', ''c'']] else [[''1'', ''a''], [''2'', ''b'']]"
  let ?fs2 = "example_states @ [([''d'', ''concatenated-x''], Dir),
              ([''d'', ''concatenated-x'', ''all-bills.csv''], File [])]"
  have reads: "\<forall>p \<in> set [?ak, ?ny]. \<exists>bytes. read_file ?fs2 (resolve [] p) = Inr bytes \<and>
      example_reader bytes = (?header p # ?data p, None)"
    using example_states_reads by simp
  have "[?ak, ?ny] \<noteq> []" by simp
  with stream_concat_one_header_then_all_rows [OF example_states_paths,
      where header = ?header and data = ?data and ?fs2.0 = ?fs2 and csv_reader = example_reader
        and writerow = example_writerow and output_path = "Path ''/d/concatenated-x/all-bills.csv''"
        and ?fs1.0 = "example_states @ [([''d'', ''concatenated-x''], Dir)]"]
    example_states_hyps reads
  have "stream_concat example_reader example_writerow [] (Path ''/d/x'')
      (Path ''/d/concatenated-x/all-bills.csv'') example_states =
      (write_bytes ?fs2 (resolve [] (Path ''/d/concatenated-x/all-bills.csv''))
             (concat (map example_writerow
                ((?header (hd [?ak, ?ny]) @ [''state'']) #
                 concat (map (\<lambda>p. map (\<lambda>row. row @
                     [letters_only (name (p\<lparr>parts := take (length (parts p) - 3) (parts p)\<rparr>))])
                     (?data p)) [?ak, ?ny])))),
           [DoneWrote (sum_list (map (\<lambda>p. length (?data p)) [?ak, ?ny]))
              (Path ''/d/concatenated-x/all-bills.csv'')], None)"
    by blast
  also have "\<dots> = (example_states @ [([''d'', ''concatenated-x''], Dir),
        ([''d'', ''concatenated-x'', ''all-bills.csv''], File ''id,t,state,;3,c,AK,;1,a,NY,;2,b,NY,;'')],
      [DoneWrote 3 (Path ''/d/concatenated-x/all-bills.csv'')], None)"
    by code_simp
  finally show ?thesis using empty by blast
qed

section \<open>Properties: the per-dataset loop of the aggregator\<close>

lemma main_loop_snoc:
  "main_loop process OUTPUT_DIR n i (ds @ [d]) st =
     (case main_loop process OUTPUT_DIR n i ds st of
        (total_rows, printed, w) \<Rightarrow>
          main_loop process OUTPUT_DIR n (i + length ds) [d] (total_rows, printed, w))"
proof (induction ds arbitrary: i st)
  case Nil
  then show ?case by (cases st) simp
next
  case (Cons a ds)
  obtain total_rows printed w where st: "st = (total_rows, printed, w)" by (cases st) auto
  show ?case
    unfolding st by (simp add: Let_def Cons.IH split: prod.splits sum.splits)
qed

lemma main_loop_log:
  "main_loop process OUTPUT_DIR n i ds (total_rows, printed, w) = (total', printed', w') \<Longrightarrow>
   length printed' = length printed + 2 * length ds \<and>
   w' = foldl (\<lambda>w d. snd (process d (derive_output_path OUTPUT_DIR d) w)) w ds \<and>
   take (length printed) printed' = printed \<and>
   (\<forall>k < length ds.
      printed' ! (length printed + 2 * k) = Progress (i + k) n (ds ! k) \<and>
      printed' ! (length printed + 2 * k + 1) =
        outcome_line (derive_output_path OUTPUT_DIR (ds ! k))
          (fst (process (ds ! k) (derive_output_path OUTPUT_DIR (ds ! k))
             (foldl (\<lambda>w d. snd (process d (derive_output_path OUTPUT_DIR d) w)) w (take k ds)))))"
proof (induction ds arbitrary: total' printed' w' rule: rev_induct)
  case Nil
  then show ?case by simp
next
  case (snoc d ds)
  let ?step = "\<lambda>w d. snd (process d (derive_output_path OUTPUT_DIR d) w)"
  obtain t1 p1 w1 where run: "main_loop process OUTPUT_DIR n i ds (total_rows, printed, w) = (t1, p1, w1)"
    by (cases "main_loop process OUTPUT_DIR n i ds (total_rows, printed, w)") auto
  from snoc.IH [OF run] have len: "length p1 = length printed + 2 * length ds"
    and w1: "w1 = foldl ?step w ds" and pre: "take (length printed) p1 = printed"
    and lines: "\<forall>k < length ds.
      p1 ! (length printed + 2 * k) = Progress (i + k) n (ds ! k) \<and>
      p1 ! (length printed + 2 * k + 1) =
        outcome_line (derive_output_path OUTPUT_DIR (ds ! k))
          (fst (process (ds ! k) (derive_output_path OUTPUT_DIR (ds ! k)) (foldl ?step w (take k ds))))"
    by simp_all
  let ?out = "derive_output_path OUTPUT_DIR d"
  from snoc.prems run have last: "main_loop process OUTPUT_DIR n (i + length ds) [d] (t1, p1, w1) = (total', printed', w')"
    by (simp add: main_loop_snoc)
  then have p': "printed' = p1 @ [Progress (i + length ds) n d, outcome_line ?out (fst (process d ?out w1))]"
    and w': "w' = snd (process d ?out w1)"
    by (auto simp: Let_def outcome_line_def split: prod.splits sum.splits)
  have 1: "length printed' = length printed + 2 * length (ds @ [d])" using p' len by simp
  have 2: "w' = foldl ?step w (ds @ [d])" using w' w1 by simp
  have 3: "take (length printed) printed' = printed" using p' pre len by simp
  have 4: "printed' ! (length printed + 2 * k) = Progress (i + k) n ((ds @ [d]) ! k) \<and>
      printed' ! (length printed + 2 * k + 1) =
        outcome_line (derive_output_path OUTPUT_DIR ((ds @ [d]) ! k))
          (fst (process ((ds @ [d]) ! k) (derive_output_path OUTPUT_DIR ((ds @ [d]) ! k))
             (foldl ?step w (take k (ds @ [d])))))" if "k < length (ds @ [d])" for k
  proof (cases "k < length ds")
    case True
    with lines p' len show ?thesis by (simp add: nth_append)
  next
    case False
    with that have k: "k = length ds" by simp
    show ?thesis unfolding k using p' len w1 by (simp add: nth_append)
  qed
  from 1 2 3 4 show ?case by blast
qed

lemma join_script_main_loop_snoc:
  "join_script_main_loop process out_dir n i (ds @ [d]) st =
     (case join_script_main_loop process out_dir n i ds st of
        (printed, w) \<Rightarrow> join_script_main_loop process out_dir n (i + length ds) [d] (printed, w))"
proof (induction ds arbitrary: i st)
  case Nil
  then show ?case by (cases st) simp
next
  case (Cons a ds)
  obtain printed w where st: "st = (printed, w)" by (cases st) auto
  show ?case
    unfolding st by (simp add: Let_def Cons.IH split: prod.splits sum.splits)
qed

lemma join_script_main_loop_log:
  "join_script_main_loop process out_dir n i ds (printed, w) = (printed', w') \<Longrightarrow>
   length printed' = length printed + 2 * length ds \<and>
   w' = foldl (\<lambda>w d. snd (process d out_dir w)) w ds \<and>
   take (length printed) printed' = printed \<and>
   (\<forall>k < length ds.
      printed' ! (length printed + 2 * k) = Progress (i + k) n (ds ! k) \<and>
      printed' ! (length printed + 2 * k + 1) =
        join_outcome_line (fst (process (ds ! k) out_dir
             (foldl (\<lambda>w d. snd (process d out_dir w)) w (take k ds)))))"
proof (induction ds arbitrary: printed' w' rule: rev_induct)
  case Nil
  then show ?case by simp
next
  case (snoc d ds)
  let ?step = "\<lambda>w d. snd (process d out_dir w)"
  obtain p1 w1 where run: "join_script_main_loop process out_dir n i ds (printed, w) = (p1, w1)"
    by (cases "join_script_main_loop process out_dir n i ds (printed, w)") auto
  from snoc.IH [OF run] have len: "length p1 = length printed + 2 * length ds"
    and w1: "w1 = foldl ?step w ds" and pre: "take (length printed) p1 = printed"
    and lines: "\<forall>k < length ds.
      p1 ! (length printed + 2 * k) = Progress (i + k) n (ds ! k) \<and>
      p1 ! (length printed + 2 * k + 1) =
        join_outcome_line (fst (process (ds ! k) out_dir (foldl ?step w (take k ds))))"
    by simp_all
  from snoc.prems run
  have last: "join_script_main_loop process out_dir n (i + length ds) [d] (p1, w1) = (printed', w')"
    by (simp add: join_script_main_loop_snoc)
  then have p': "printed' = p1 @ [Progress (i + length ds) n d, join_outcome_line (fst (process d out_dir w1))]"
    and w': "w' = snd (process d out_dir w1)"
    by (auto simp: Let_def join_outcome_line_def split: prod.splits sum.splits)
  have 1: "length printed' = length printed + 2 * length (ds @ [d])" using p' len by simp
  have 2: "w' = foldl ?step w (ds @ [d])" using w' w1 by simp
  have 3: "take (length printed) printed' = printed" using p' pre len by simp
  have 4: "printed' ! (length printed + 2 * k) = Progress (i + k) n ((ds @ [d]) ! k) \<and>
      printed' ! (length printed + 2 * k + 1) =
        join_outcome_line (fst (process ((ds @ [d]) ! k) out_dir (foldl ?step w (take k (ds @ [d])))))"
    if "k < length (ds @ [d])" for k
  proof (cases "k < length ds")
    case True
    with lines p' len show ?thesis by (simp add: nth_append)
  next
    case False
    with that have k: "k = length ds" by simp
    show ?thesis unfolding k using p' len w1 by (simp add: nth_append)
  qed
  from 1 2 3 4 show ?case by blast
qed

text \<open>
  C9.  Whatever \<^verbatim>\<open>process_csv_dir\<close> raises and for whichever datasets, both loops go through
  the whole list: they print two lines for each dataset, and for the dataset at position
  \<open>k\<close> the first names its path and the second is the outcome of \<^verbatim>\<open>process_csv_dir\<close> called
  on that dataset in the state that the datasets before it left behind, failed or not:
  the line \<^verbatim>\<open>ERROR\<close> with the exception when it raised, the line with the output path when
  it returned.
\<close>

theorem dataset_failure_never_aborts_run:
  assumes "k < length csv_dirs"
    and "main_loop process OUTPUT_DIR (length csv_dirs) 1 csv_dirs (0, [], w) = (total_rows, printed, w')"
    and "join_script_main_loop process2 out_dir (length csv_dirs) 1 csv_dirs ([], w) = (printed2, w2)"
  shows
    "length printed = 2 * length csv_dirs \<and>
     printed ! (2 * k) = Progress (k + 1) (length csv_dirs) (csv_dirs ! k) \<and>
     printed ! (2 * k + 1) =
       (case fst (process (csv_dirs ! k) (derive_output_path OUTPUT_DIR (csv_dirs ! k))
                    (foldl (\<lambda>w d. snd (process d (derive_output_path OUTPUT_DIR d) w)) w (take k csv_dirs))) of
          Inl e \<Rightarrow> ErrorLine e
        | Inr rows \<Rightarrow> Wrote (derive_output_path OUTPUT_DIR (csv_dirs ! k)) rows) \<and>
     length printed2 = 2 * length csv_dirs \<and>
     printed2 ! (2 * k) = Progress (k + 1) (length csv_dirs) (csv_dirs ! k) \<and>
     printed2 ! (2 * k + 1) =
       (case fst (process2 (csv_dirs ! k) out_dir
                    (foldl (\<lambda>w d. snd (process2 d out_dir w)) w (take k csv_dirs))) of
          Inl e \<Rightarrow> ErrorLine e
        | Inr out_path \<Rightarrow> WroteJoin out_path)"
  using main_loop_log [OF assms(2)] join_script_main_loop_log [OF assms(3)] assms(1)
  by (simp add: outcome_line_def join_outcome_line_def)

lemma example_main_loop:
  "main_loop example_process (Path ''/out'') 3 1
      [Path ''/b/AK/s1/csv'', Path ''/b/AK/broken/csv'', Path ''/b/NY/s1/csv''] (0, [], 0)
   = (14,
      [Progress 1 3 (Path ''/b/AK/s1/csv''), Wrote (Path ''/out/AK_s1.csv'') 7,
       Progress 2 3 (Path ''/b/AK/broken/csv''), ErrorLine (LibraryError ''bill_id''),
       Progress 3 3 (Path ''/b/NY/s1/csv''), Wrote (Path ''/out/NY_s1.csv'') 7],
      3)"
  by code_simp

lemma example_join_script_main_loop:
  "join_script_main_loop example_process2 (Path ''/out'') 3 1
      [Path ''/b/AK/s1/csv'', Path ''/b/AK/broken/csv'', Path ''/b/NY/s1/csv''] ([], 0)
   = ([Progress 1 3 (Path ''/b/AK/s1/csv''), WroteJoin (Path ''/out/AK.csv''),
       Progress 2 3 (Path ''/b/AK/broken/csv''), ErrorLine (LibraryError ''bill_id''),
       Progress 3 3 (Path ''/b/NY/s1/csv''), WroteJoin (Path ''/out/NY.csv'')],
      3)"
  by code_simp

theorem dataset_failure_never_aborts_run_witness:
  "main_loop example_process (Path ''/out'') 3 1
      [Path ''/b/AK/s1/csv'', Path ''/b/AK/broken/csv'', Path ''/b/NY/s1/csv''] (0, [], 0)
   = (14,
      [Progress 1 3 (Path ''/b/AK/s1/csv''), Wrote (Path ''/out/AK_s1.csv'') 7,
       Progress 2 3 (Path ''/b/AK/broken/csv''), ErrorLine (LibraryError ''bill_id''),
       Progress 3 3 (Path ''/b/NY/s1/csv''), Wrote (Path ''/out/NY_s1.csv'') 7],
      3) \<and>
   fst (example_process (Path ''/b/AK/broken/csv'')
         (derive_output_path (Path ''/out'') (Path ''/b/AK/broken/csv'')) 1)
     = Inl (LibraryError ''bill_id'') \<and>
   [Progress 1 3 (Path ''/b/AK/s1/csv''), Wrote (Path ''/out/AK_s1.csv'') 7,
       Progress 2 3 (Path ''/b/AK/broken/csv''), ErrorLine (LibraryError ''bill_id''),
       Progress 3 3 (Path ''/b/NY/s1/csv''), Wrote (Path ''/out/NY_s1.csv'') 7] ! (2 * 2)
     = Progress (2 + 1) (length [Path ''/b/AK/s1/csv'', Path ''/b/AK/broken/csv'', Path ''/b/NY/s1/csv''])
         ([Path ''/b/AK/s1/csv'', Path ''/b/AK/broken/csv'', Path ''/b/NY/s1/csv''] ! 2)"
proof -
  have k: "(2 :: nat) < length [Path ''/b/AK/s1/csv'', Path ''/b/AK/broken/csv'', Path ''/b/NY/s1/csv'']"
    by simp
  have l: "length [Path ''/b/AK/s1/csv'', Path ''/b/AK/broken/csv'', Path ''/b/NY/s1/csv''] = 3"
    by simp
  have bad: "fst (example_process (Path ''/b/AK/broken/csv'')
         (derive_output_path (Path ''/out'') (Path ''/b/AK/broken/csv'')) 1)
     = Inl (LibraryError ''bill_id'')"
    by code_simp
  from dataset_failure_never_aborts_run [where k = 2
      and csv_dirs = "[Path ''/b/AK/s1/csv'', Path ''/b/AK/broken/csv'', Path ''/b/NY/s1/csv'']"
      and process = example_process and ?process2.0 = example_process2
      and OUTPUT_DIR = "Path ''/out''" and out_dir = "Path ''/out''" and w = 0,
      unfolded l, OF _ example_main_loop example_join_script_main_loop]
  have "[Progress 1 3 (Path ''/b/AK/s1/csv''), Wrote (Path ''/out/AK_s1.csv'') 7,
       Progress 2 3 (Path ''/b/AK/broken/csv''), ErrorLine (LibraryError ''bill_id''),
       Progress 3 3 (Path ''/b/NY/s1/csv''), Wrote (Path ''/out/NY_s1.csv'') 7] ! (2 * 2)
     = Progress (2 + 1) 3
         ([Path ''/b/AK/s1/csv'', Path ''/b/AK/broken/csv'', Path ''/b/NY/s1/csv''] ! 2)"
    by simp
  with example_main_loop bad show ?thesis unfolding l by blast
qed

section \<open>Properties: the per-bill aggregator\<close>

subsection \<open>Groups and left joins\<close>

lemma set_unique [simp]: "set (unique xs) = set xs"
  by (induction xs rule: unique.induct) auto

lemma dropna_simps [simp]:
  "dropna [] = []"
  "dropna (None # xs) = dropna xs"
  "dropna (Some v # xs) = v # dropna xs"
  by (simp_all add: dropna_def List.map_filter_def)

lemma set_dropna_map: "set (dropna (map f xs)) = {v. \<exists>x \<in> set xs. f x = Some v}"
proof (induction xs)
  case Nil
  then show ?case by simp
next
  case (Cons x xs)
  then show ?case by (cases "f x") auto
qed

lemma length_dropna_map:
  "length (dropna (map f xs)) = length (filter (\<lambda>x. f x \<noteq> None) xs)"
proof (induction xs)
  case Nil
  then show ?case by simp
next
  case (Cons x xs)
  then show ?case by (cases "f x") auto
qed

lemma map_of_key_map:
  "map_of (map (\<lambda>k. (k, g k)) ks) k = (if k \<in> set ks then Some (g k) else None)"
  by (induction ks) auto

lemma map_of_groups:
  "map_of (groups key rows) k =
     (if \<exists>r \<in> set rows. key r = Some k then Some (filter (\<lambda>r. key r = Some k) rows) else None)"
  by (simp add: groups_def map_of_key_map set_dropna_map)

lemma groups_empty_iff: "groups key rows = [] \<longleftrightarrow> (\<forall>r \<in> set rows. key r = None)"
proof
  assume "groups key rows = []"
  then have "unique (dropna (map key rows)) = []" by (simp add: groups_def)
  then have "set (unique (dropna (map key rows))) = {}" by (simp del: set_unique)
  then have e: "{v. \<exists>x \<in> set rows. key x = Some v} = {}" by (simp add: set_dropna_map)
  show "\<forall>r \<in> set rows. key r = None"
  proof
    fix r assume r: "r \<in> set rows"
    show "key r = None"
    proof (cases "key r")
      case (Some v)
      with r have "v \<in> {v. \<exists>x \<in> set rows. key x = Some v}" by blast
      with e show ?thesis by simp
    qed simp
  qed
next
  assume a: "\<forall>r \<in> set rows. key r = None"
  then have "{v. \<exists>x \<in> set rows. key x = Some v} = {}" by auto
  then have "set (unique (dropna (map key rows))) = {}" by (simp add: set_dropna_map)
  then have "unique (dropna (map key rows)) = []" by (simp del: set_unique)
  then show "groups key rows = []" by (simp add: groups_def)
qed

lemma map_of_aggregated:
  "map_of (map (\<lambda>(k, grp). (k, agg grp)) (groups key rows)) k =
     (if \<exists>r \<in> set rows. key r = Some k then Some (agg (filter (\<lambda>r. key r = Some k) rows)) else None)"
  by (simp add: map_of_map [unfolded comp_def, THEN fun_cong] map_of_groups)

lemma merge_left_apply:
  "merge_left (Some k) (groupby_apply key agg rows) =
     (if \<forall>r \<in> set rows. key r = None then Missing
      else Cell (if \<exists>r \<in> set rows. key r = Some k
                 then Some (agg (filter (\<lambda>r. key r = Some k) rows)) else None))"
proof (cases "groups key rows")
  case Nil
  then show ?thesis
    using groups_empty_iff [of key rows] by (simp add: merge_left_def groupby_apply_def)
next
  case (Cons g gs)
  then have "\<not> (\<forall>r \<in> set rows. key r = None)"
    using groups_empty_iff [of key rows] by simp
  moreover have "groupby_apply key agg rows = Some (map (\<lambda>(k, grp). (k, agg grp)) (groups key rows))"
    using Cons by (simp add: groupby_apply_def)
  ultimately show ?thesis
    by (simp add: merge_left_def map_of_aggregated)
qed

lemma merge_left_apply_None:
  "merge_left None (groupby_apply key agg rows) =
     (if \<forall>r \<in> set rows. key r = None then Missing else Cell None)"
  using groups_empty_iff [of key rows]
  by (cases "groups key rows") (simp_all add: merge_left_def groupby_apply_def)

lemma merge_left_agg:
  "merge_left (Some k) (Some (groupby_agg key agg rows)) =
     Cell (if \<exists>r \<in> set rows. key r = Some k
           then Some (agg (filter (\<lambda>r. key r = Some k) rows)) else None)"
  by (simp add: merge_left_def groupby_agg_def map_of_aggregated)

text \<open>A count column after the coercion, for a child table with a keyed row.\<close>

lemma count_column_apply:
  assumes "\<exists>r \<in> set rows. key r \<noteq> None"
    and "\<And>grp. cnt (agg grp) = int (length grp)"
  shows "fillna_astype_int (column_of cnt (merge_left bid (groupby_apply key agg rows)))
     = Cell (int (length (filter (\<lambda>r. key r \<noteq> None \<and> key r = bid) rows)))"
proof (cases bid)
  case None
  have "filter (\<lambda>r. key r \<noteq> None \<and> key r = None) rows = []"
    by (induction rows) auto
  with assms(1) None show ?thesis
    by (simp add: merge_left_apply_None column_of_def fillna_astype_int_def)
next
  case (Some k)
  have eq: "filter (\<lambda>r. key r \<noteq> None \<and> key r = Some k) rows = filter (\<lambda>r. key r = Some k) rows"
    by (rule filter_cong) auto
  have keyed: "\<not> (\<forall>r \<in> set rows. key r = None)" using assms(1) by auto
  show ?thesis
  proof (cases "\<exists>r \<in> set rows. key r = Some k")
    case True
    with keyed assms(2) show ?thesis
      unfolding Some eq by (simp add: merge_left_apply column_of_def fillna_astype_int_def)
  next
    case False
    then have "filter (\<lambda>r. key r = Some k) rows = []" by (simp add: filter_empty_conv)
    with False keyed show ?thesis
      unfolding Some eq by (simp add: merge_left_apply column_of_def fillna_astype_int_def)
  qed
qed

lemma count_column_agg:
  "fillna_astype_int (column_of ra_rollcall_count
       (merge_left bid (Some (groupby_agg key rollcalls_agg_group rows))))
     = Cell (int (length (filter (\<lambda>r. key r \<noteq> None \<and> key r = bid \<and> roll_call_id r \<noteq> None) rows)))"
proof (cases bid)
  case None
  have "filter (\<lambda>r. key r \<noteq> None \<and> key r = None \<and> roll_call_id r \<noteq> None) rows = []"
    by (induction rows) auto
  with None show ?thesis
    by (simp add: merge_left_def column_of_def fillna_astype_int_def)
next
  case (Some k)
  have eq: "filter (\<lambda>r. key r \<noteq> None \<and> key r = Some k \<and> roll_call_id r \<noteq> None) rows
      = filter (\<lambda>r. roll_call_id r \<noteq> None) (filter (\<lambda>r. key r = Some k) rows)"
    unfolding filter_filter by (rule filter_cong) auto
  show ?thesis
  proof (cases "\<exists>r \<in> set rows. key r = Some k")
    case True
    then show ?thesis
      unfolding Some eq
      by (simp add: merge_left_agg column_of_def fillna_astype_int_def rollcalls_agg_group_def
          length_dropna_map)
  next
    case False
    then have "filter (\<lambda>r. key r = Some k) rows = []" by (simp add: filter_empty_conv)
    with False show ?thesis
      unfolding Some eq by (simp add: merge_left_agg column_of_def fillna_astype_int_def)
  qed
qed

text \<open>
  A vote total after the coercion: while the sum over the roll calls of the bill is of
  magnitude below \<open>2\<^sup>5\<^sup>3\<close>, neither the addition in \<^verbatim>\<open>int64\<close> nor the way through \<^verbatim>\<open>float64\<close>
  changes it.
\<close>

lemma sint_word_of_int_exact:
  assumes "\<bar>n\<bar> < 2 ^ 53"
  shows "sint (word_of_int n :: 64 word) = n"
proof -
  have "(2::int) ^ 53 \<le> 2 ^ 63" by (rule power_increasing) simp_all
  with assms have "- (2 ^ 63) \<le> n" "n < 2 ^ 63" by linarith+
  then have "signed_take_bit 63 n = n" by (rule signed_take_bit_int_eq_self)
  then show ?thesis by (simp only: sint_sbintrunc') simp
qed

lemma word_of_int_sum_list: "word_of_int (sum_list (map sint ws)) = (sum_list ws :: 'a::len word)"
  by (induction ws) simp_all

lemma sint_sum_list:
  assumes "\<bar>sum_list (map sint ws)\<bar> < 2 ^ 53"
  shows "sint (sum_list ws :: 64 word) = sum_list (map sint ws)"
  using sint_word_of_int_exact [OF assms] by (simp only: word_of_int_sum_list)

lemma bit_length_le: "n < 2 ^ m \<Longrightarrow> bit_length n \<le> m"
proof (induction m arbitrary: n)
  case 0
  then show ?case by (simp add: bit_length.simps)
next
  case (Suc m)
  from Suc.prems have "n div 2 < 2 ^ m" by simp
  from Suc.IH [OF this] show ?case by (subst bit_length.simps) simp
qed

lemma astype_float64_exact:
  assumes "\<bar>sint w\<bar> < 2 ^ 53"
  shows "astype_float64 w = sint w"
proof -
  from assms have "bit_length \<bar>sint w\<bar> \<le> 53" by (rule bit_length_le)
  then have k: "bit_length \<bar>sint w\<bar> - 53 = 0" by simp
  have "sgn (sint w) * \<bar>sint w\<bar> = sint w" by (simp add: mult_sgn_abs)
  then show ?thesis
    unfolding astype_float64_def Let_def k by simp
qed

lemma total_cell_exact:
  assumes "\<bar>sum_list (map sint ws)\<bar> < 2 ^ 53"
  shows "sint (if is_float64 then word_of_int (astype_float64 (sum_list ws)) else sum_list ws :: 64 word)
     = sum_list (map sint ws)"
proof -
  note s = sint_sum_list [OF assms]
  from assms have "astype_float64 (sum_list ws) = sum_list (map sint ws)"
    using astype_float64_exact [of "sum_list ws"] by (simp only: s)
  with assms s show ?thesis by (simp add: sint_word_of_int_exact)
qed

lemma total_column_agg:
  assumes "\<And>grp. tot (rollcalls_agg_group grp) = sum_list (map f grp)"
    and "\<bar>sum_list (map (\<lambda>r. sint (f r)) (filter (\<lambda>r. key r \<noteq> None \<and> key r = bid) rows))\<bar> < 2 ^ 53"
  shows "fillna_astype_int_total is_float64
       (column_of tot (merge_left bid (Some (groupby_agg key rollcalls_agg_group rows))))
     = Cell (sum_list (map (\<lambda>r. sint (f r)) (filter (\<lambda>r. key r \<noteq> None \<and> key r = bid) rows)))"
proof (cases bid)
  case None
  have "filter (\<lambda>r. key r \<noteq> None \<and> key r = None) rows = []"
    by (induction rows) auto
  with None show ?thesis
    by (simp add: merge_left_def column_of_def fillna_astype_int_total_def)
next
  case (Some k)
  have eq: "filter (\<lambda>r. key r \<noteq> None \<and> key r = Some k) rows = filter (\<lambda>r. key r = Some k) rows"
    by (rule filter_cong) auto
  show ?thesis
  proof (cases "\<exists>r \<in> set rows. key r = Some k")
    case True
    from assms(2) have "\<bar>sum_list (map sint (map f (filter (\<lambda>r. key r = Some k) rows)))\<bar> < 2 ^ 53"
      unfolding Some eq by (simp add: comp_def)
    from total_cell_exact [OF this, of is_float64] True show ?thesis
      unfolding Some eq
      by (simp add: merge_left_agg column_of_def fillna_astype_int_total_def assms(1) comp_def)
  next
    case False
    then have "filter (\<lambda>r. key r = Some k) rows = []" by (simp add: filter_empty_conv)
    with False show ?thesis
      unfolding Some eq by (simp add: merge_left_agg column_of_def fillna_astype_int_total_def)
  qed
qed

subsection \<open>The sponsorship rows after the join with the person table\<close>

lemma merge_people_Cons:
  "merge_people (s # sps) ppl =
     (case filter (\<lambda>p. people_id p = sp_people_id s) ppl of
        [] \<Rightarrow> [\<lparr>sponsorship = s, joined_name = None, joined_party = None\<rparr>]
      | m # ms \<Rightarrow>
          map (\<lambda>p. \<lparr>sponsorship = s, joined_name = person_name p, joined_party = party p\<rparr>) (m # ms))
     @ merge_people sps ppl"
  by (simp add: merge_people_def)

lemma merge_people_Nil [simp]: "merge_people [] ppl = []"
  by (simp add: merge_people_def)

lemma filter_merge_people:
  "filter (\<lambda>m. P (sponsorship m)) (merge_people sps ppl) = merge_people (filter P sps) ppl"
proof (induction sps)
  case Nil
  then show ?case by simp
next
  case (Cons s sps)
  have keep: "P s \<Longrightarrow> filter (\<lambda>m. P (sponsorship m))
        (map (\<lambda>p. \<lparr>sponsorship = s, joined_name = person_name p, joined_party = party p\<rparr>) ms)
      = map (\<lambda>p. \<lparr>sponsorship = s, joined_name = person_name p, joined_party = party p\<rparr>) ms"
    for ms :: "'b person_row list"
    by (induction ms) auto
  have drop: "\<not> P s \<Longrightarrow> filter (\<lambda>m. P (sponsorship m))
        (map (\<lambda>p. \<lparr>sponsorship = s, joined_name = person_name p, joined_party = party p\<rparr>) ms) = []"
    for ms :: "'b person_row list"
    by (induction ms) auto
  show ?case
  proof (cases "P s")
    case True
    with Cons keep show ?thesis
      by (simp add: merge_people_Cons split: list.splits)
  next
    case False
    with Cons drop show ?thesis
      by (simp add: merge_people_Cons split: list.splits)
  qed
qed

lemma distinct_key_at_most_one:
  "distinct (map f xs) \<Longrightarrow> length (filter (\<lambda>x. f x = v) xs) \<le> 1"
proof (induction xs)
  case Nil
  then show ?case by simp
next
  case (Cons x xs)
  show ?case
  proof (cases "f x = v")
    case True
    from Cons.prems have notin: "f x \<notin> f ` set xs" by simp
    have "\<forall>y \<in> set xs. f y \<noteq> v"
    proof
      fix y assume "y \<in> set xs"
      then have "f y \<in> f ` set xs" by (rule imageI)
      with notin have "f y \<noteq> f x" by auto
      with True show "f y \<noteq> v" by simp
    qed
    then have "filter (\<lambda>x. f x = v) xs = []" by (simp add: filter_empty_conv)
    with True show ?thesis by simp
  next
    case False
    with Cons show ?thesis by simp
  qed
qed

lemma length_merge_people:
  assumes "distinct (map people_id ppl)"
  shows "length (merge_people sps ppl) = length sps"
proof (induction sps)
  case Nil
  then show ?case by simp
next
  case (Cons s sps)
  have "length (filter (\<lambda>p. people_id p = sp_people_id s) ppl) \<le> 1"
    using assms by (rule distinct_key_at_most_one)
  then have "length (case filter (\<lambda>p. people_id p = sp_people_id s) ppl of
        [] \<Rightarrow> [\<lparr>sponsorship = s, joined_name = None, joined_party = None\<rparr>]
      | m # ms \<Rightarrow>
          map (\<lambda>p. \<lparr>sponsorship = s, joined_name = person_name p, joined_party = party p\<rparr>) (m # ms)) = 1"
    by (cases "filter (\<lambda>p. people_id p = sp_people_id s) ppl") auto
  with Cons show ?case by (simp add: merge_people_Cons)
qed

lemma merge_people_keyed:
  "(\<exists>m \<in> set (merge_people sps ppl). sp_bill_id (sponsorship m) \<noteq> None)
     \<longleftrightarrow> (\<exists>s \<in> set sps. sp_bill_id s \<noteq> None)"
proof -
  have "(\<exists>m \<in> set (merge_people sps ppl). sp_bill_id (sponsorship m) \<noteq> None)
      \<longleftrightarrow> filter (\<lambda>m. sp_bill_id (sponsorship m) \<noteq> None) (merge_people sps ppl) \<noteq> []"
    by (simp add: filter_empty_conv)
  also have "\<dots> \<longleftrightarrow> merge_people (filter (\<lambda>s. sp_bill_id s \<noteq> None) sps) ppl \<noteq> []"
    by (simp only: filter_merge_people [of "\<lambda>s. sp_bill_id s \<noteq> None"])
  also have "\<dots> \<longleftrightarrow> filter (\<lambda>s. sp_bill_id s \<noteq> None) sps \<noteq> []"
  proof (cases "filter (\<lambda>s. sp_bill_id s \<noteq> None) sps")
    case Nil
    then show ?thesis by simp
  next
    case (Cons a as)
    then show ?thesis by (simp add: merge_people_Cons split: list.splits)
  qed
  also have "\<dots> \<longleftrightarrow> (\<exists>s \<in> set sps. sp_bill_id s \<noteq> None)"
    by (simp add: filter_empty_conv)
  finally show ?thesis .
qed

subsection \<open>The rows of the result\<close>

lemma join_tables_length: "length (join_tables csv_dir t) = length (bills t)"
  by (simp add: join_tables_def Let_def)

lemma join_tables_nth:
  assumes "i < length (bills t)"
  shows "bill (join_tables csv_dir t ! i) = bills t ! i"
    and "state (join_tables csv_dir t ! i) = state_code csv_dir"
    and "sponsor_count (join_tables csv_dir t ! i) =
           fillna_astype_int (column_of sa_sponsor_count
             (merge_left (bill_id (bills t ! i)) (aggregate_sponsors (sponsors t) (people t))))"
    and "primary_sponsor (join_tables csv_dir t ! i) =
           (case merge_left (bill_id (bills t ! i)) (aggregate_sponsors (sponsors t) (people t)) of
              Missing \<Rightarrow> Missing
            | Cell v \<Rightarrow> Cell (Option.bind v sa_primary_sponsor))"
    and "action_count (join_tables csv_dir t ! i) =
           fillna_astype_int (column_of ha_action_count
             (merge_left (bill_id (bills t ! i)) (aggregate_history (history t))))"
    and "document_count (join_tables csv_dir t ! i) =
           fillna_astype_int (column_of da_document_count
             (merge_left (bill_id (bills t ! i)) (aggregate_documents (documents t))))"
    and "rollcall_count (join_tables csv_dir t ! i) =
           fillna_astype_int (column_of ra_rollcall_count
             (merge_left (bill_id (bills t ! i)) (Some (aggregate_rollcalls (rollcalls t)))))"
    and "total_yea (join_tables csv_dir t ! i) =
           fillna_astype_int_total
             (list_ex (\<lambda>b. unmatched (bill_id b) (aggregate_rollcalls (rollcalls t))) (bills t))
             (column_of ra_total_yea
               (merge_left (bill_id (bills t ! i)) (Some (aggregate_rollcalls (rollcalls t)))))"
    and "total_nay (join_tables csv_dir t ! i) =
           fillna_astype_int_total
             (list_ex (\<lambda>b. unmatched (bill_id b) (aggregate_rollcalls (rollcalls t))) (bills t))
             (column_of ra_total_nay
               (merge_left (bill_id (bills t ! i)) (Some (aggregate_rollcalls (rollcalls t)))))"
  using assms by (simp_all add: join_tables_def Let_def)

lemma sponsor_count_rows:
  assumes "\<exists>x \<in> set sps. sp_bill_id x \<noteq> None" and "distinct (map people_id ppl)"
  shows "fillna_astype_int (column_of sa_sponsor_count (merge_left bid (aggregate_sponsors sps ppl)))
     = Cell (int (length (filter (\<lambda>x. sp_bill_id x \<noteq> None \<and> sp_bill_id x = bid) sps)))"
proof -
  let ?key = "\<lambda>m. sp_bill_id (sponsorship m)"
  let ?P = "\<lambda>x. sp_bill_id x \<noteq> None \<and> sp_bill_id x = bid"
  let ?K = "\<lambda>m. (na_last (sp_bill_id (sponsorship m)), na_last (position (sponsorship m)))"
  let ?sorted = "sort_key ?K (merge_people sps ppl)"
  have keyed: "\<exists>r \<in> set ?sorted. ?key r \<noteq> None"
    unfolding set_sort using assms(1) by (rule merge_people_keyed [THEN iffD2])
  have cnt: "sa_sponsor_count (sponsors_agg_group grp) = int (length grp)" for grp :: "('a, 'b) merged_row list"
    by (simp add: sponsors_agg_group_def Let_def)
  have "length (filter (\<lambda>m. ?P (sponsorship m)) ?sorted)
      = length (filter (\<lambda>m. ?P (sponsorship m)) (merge_people sps ppl))"
    unfolding filter_sort by (rule length_sort)
  also have "\<dots> = length (merge_people (filter ?P sps) ppl)"
    by (simp only: filter_merge_people [of ?P])
  also have "\<dots> = length (filter ?P sps)"
    by (rule length_merge_people [OF assms(2)])
  finally have len: "length (filter (\<lambda>m. ?key m \<noteq> None \<and> ?key m = bid) ?sorted) = length (filter ?P sps)" .
  from count_column_apply [of ?sorted ?key sa_sponsor_count sponsors_agg_group bid, OF keyed cnt]
  show ?thesis unfolding len by (simp add: aggregate_sponsors_def Let_def)
qed

lemma action_count_rows:
  assumes "\<exists>x \<in> set hs. hi_bill_id x \<noteq> None"
  shows "fillna_astype_int (column_of ha_action_count (merge_left bid (aggregate_history hs)))
     = Cell (int (length (filter (\<lambda>x. hi_bill_id x \<noteq> None \<and> hi_bill_id x = bid) hs)))"
proof -
  let ?sorted = "sort_key (\<lambda>h. (na_last (hi_bill_id h), na_last (date h), na_last (sequence h))) hs"
  have keyed: "\<exists>r \<in> set ?sorted. hi_bill_id r \<noteq> None" using assms by simp
  have cnt: "ha_action_count (history_agg_group grp) = int (length grp)" for grp :: "'a history_row list"
    by (simp add: history_agg_group_def)
  have "length (filter (\<lambda>x. hi_bill_id x \<noteq> None \<and> hi_bill_id x = bid) ?sorted)
      = length (filter (\<lambda>x. hi_bill_id x \<noteq> None \<and> hi_bill_id x = bid) hs)"
    by (simp add: filter_sort)
  with count_column_apply [of ?sorted hi_bill_id ha_action_count history_agg_group bid, OF keyed cnt]
  show ?thesis by (simp add: aggregate_history_def Let_def)
qed

lemma document_count_rows:
  assumes "\<exists>x \<in> set ds. do_bill_id x \<noteq> None"
  shows "fillna_astype_int (column_of da_document_count (merge_left bid (aggregate_documents ds)))
     = Cell (int (length (filter (\<lambda>x. do_bill_id x \<noteq> None \<and> do_bill_id x = bid) ds)))"
proof -
  have cnt: "da_document_count (documents_agg_group grp) = int (length grp)" for grp :: "'a document_row list"
    by (simp add: documents_agg_group_def)
  from count_column_apply [of ds do_bill_id da_document_count documents_agg_group bid, OF assms cnt]
  show ?thesis by (simp add: aggregate_documents_def)
qed

text \<open>
  The count and total columns of a dataset in which the sponsorship, history and document
  tables each have a row with a \<^verbatim>\<open>bill_id\<close>.  For the bill at position \<open>i\<close> of the bills table
  and its row \<open>r\<close> of the result (one row for each bill, in order), where a row of a child
  table references the bill when its \<^verbatim>\<open>bill_id\<close> is present and equal to the bill's:
  \<^verbatim>\<open>rollcall_count\<close> is the number of the roll-call rows referencing the bill that have a
  \<^verbatim>\<open>roll_call_id\<close>; \<^verbatim>\<open>total_yea\<close> and \<^verbatim>\<open>total_nay\<close> are the sums of \<^verbatim>\<open>yea\<close> and \<^verbatim>\<open>nay\<close> over the
  roll-call rows referencing the bill, while these sums are of magnitude below \<open>2\<^sup>5\<^sup>3\<close>;
  \<^verbatim>\<open>sponsor_count\<close>, \<^verbatim>\<open>action_count\<close> and \<^verbatim>\<open>document_count\<close> are the numbers of rows referencing
  the bill in the sponsorship, history and document table, when that table has a row with
  a \<^verbatim>\<open>bill_id\<close> (for \<^verbatim>\<open>sponsor_count\<close> also: when no \<^verbatim>\<open>people_id\<close> occurs twice in the person
  table).
\<close>

lemma count_and_total_columns_of_keyed_tables:
  assumes "i < length (bills t)" and "b = bills t ! i" and "r = join_tables csv_dir t ! i"
  shows
    "length (join_tables csv_dir t) = length (bills t) \<and> bill r = b \<and>
     rollcall_count r = Cell (int (length (filter
         (\<lambda>x. rc_bill_id x \<noteq> None \<and> rc_bill_id x = bill_id b \<and> roll_call_id x \<noteq> None) (rollcalls t)))) \<and>
     (\<bar>sum_list (map (\<lambda>x. sint (yea x))
         (filter (\<lambda>x. rc_bill_id x \<noteq> None \<and> rc_bill_id x = bill_id b) (rollcalls t)))\<bar> < 2 ^ 53 \<longrightarrow>
        total_yea r = Cell (sum_list (map (\<lambda>x. sint (yea x))
           (filter (\<lambda>x. rc_bill_id x \<noteq> None \<and> rc_bill_id x = bill_id b) (rollcalls t))))) \<and>
     (\<bar>sum_list (map (\<lambda>x. sint (nay x))
         (filter (\<lambda>x. rc_bill_id x \<noteq> None \<and> rc_bill_id x = bill_id b) (rollcalls t)))\<bar> < 2 ^ 53 \<longrightarrow>
        total_nay r = Cell (sum_list (map (\<lambda>x. sint (nay x))
           (filter (\<lambda>x. rc_bill_id x \<noteq> None \<and> rc_bill_id x = bill_id b) (rollcalls t))))) \<and>
     ((\<exists>x \<in> set (sponsors t). sp_bill_id x \<noteq> None) \<and> distinct (map people_id (people t)) \<longrightarrow>
        sponsor_count r = Cell (int (length (filter
           (\<lambda>x. sp_bill_id x \<noteq> None \<and> sp_bill_id x = bill_id b) (sponsors t))))) \<and>
     ((\<exists>x \<in> set (history t). hi_bill_id x \<noteq> None) \<longrightarrow>
        action_count r = Cell (int (length (filter
           (\<lambda>x. hi_bill_id x \<noteq> None \<and> hi_bill_id x = bill_id b) (history t))))) \<and>
     ((\<exists>x \<in> set (documents t). do_bill_id x \<noteq> None) \<longrightarrow>
        document_count r = Cell (int (length (filter
           (\<lambda>x. do_bill_id x \<noteq> None \<and> do_bill_id x = bill_id b) (documents t)))))"
proof (intro conjI impI)
  note row = join_tables_nth [OF assms(1), of csv_dir, folded assms(2,3)]
  show "length (join_tables csv_dir t) = length (bills t)" by (rule join_tables_length)
  show "bill r = b" by (rule row(1))
  show "rollcall_count r = Cell (int (length (filter
         (\<lambda>x. rc_bill_id x \<noteq> None \<and> rc_bill_id x = bill_id b \<and> roll_call_id x \<noteq> None) (rollcalls t))))"
    unfolding row(7) aggregate_rollcalls_def by (rule count_column_agg)
  show "total_yea r = Cell (sum_list (map (\<lambda>x. sint (yea x))
         (filter (\<lambda>x. rc_bill_id x \<noteq> None \<and> rc_bill_id x = bill_id b) (rollcalls t))))"
    if "\<bar>sum_list (map (\<lambda>x. sint (yea x))
         (filter (\<lambda>x. rc_bill_id x \<noteq> None \<and> rc_bill_id x = bill_id b) (rollcalls t)))\<bar> < 2 ^ 53"
    unfolding row(8) aggregate_rollcalls_def using _ that
    by (rule total_column_agg) (simp add: rollcalls_agg_group_def)
  show "total_nay r = Cell (sum_list (map (\<lambda>x. sint (nay x))
         (filter (\<lambda>x. rc_bill_id x \<noteq> None \<and> rc_bill_id x = bill_id b) (rollcalls t))))"
    if "\<bar>sum_list (map (\<lambda>x. sint (nay x))
         (filter (\<lambda>x. rc_bill_id x \<noteq> None \<and> rc_bill_id x = bill_id b) (rollcalls t)))\<bar> < 2 ^ 53"
    unfolding row(9) aggregate_rollcalls_def using _ that
    by (rule total_column_agg) (simp add: rollcalls_agg_group_def)
  show "sponsor_count r = Cell (int (length (filter
           (\<lambda>x. sp_bill_id x \<noteq> None \<and> sp_bill_id x = bill_id b) (sponsors t))))"
    if "(\<exists>x \<in> set (sponsors t). sp_bill_id x \<noteq> None) \<and> distinct (map people_id (people t))"
    unfolding row(3) using that by (intro sponsor_count_rows) simp_all
  show "action_count r = Cell (int (length (filter
           (\<lambda>x. hi_bill_id x \<noteq> None \<and> hi_bill_id x = bill_id b) (history t))))"
    if "\<exists>x \<in> set (history t). hi_bill_id x \<noteq> None"
    unfolding row(5) using that by (rule action_count_rows)
  show "document_count r = Cell (int (length (filter
           (\<lambda>x. do_bill_id x \<noteq> None \<and> do_bill_id x = bill_id b) (documents t))))"
    if "\<exists>x \<in> set (documents t). do_bill_id x \<noteq> None"
    unfolding row(6) using that by (rule document_count_rows)
qed

text \<open>
  The columns of the scenario's dataset: bill 10 with two sponsors, one document, two roll
  calls with 30 and 20 yea votes; bill 20 with one sponsor and nothing else.
\<close>

lemma scenario_count_and_total_columns:
  "map sponsor_count (join_tables (Path ''/bulk/AK/2021-2022_32nd_Legislature/csv'') scenario)
     = [Cell 2, Cell 1] \<and>
   map action_count (join_tables (Path ''/bulk/AK/2021-2022_32nd_Legislature/csv'') scenario)
     = [Cell 2, Cell 0] \<and>
   map document_count (join_tables (Path ''/bulk/AK/2021-2022_32nd_Legislature/csv'') scenario)
     = [Cell 1, Cell 0] \<and>
   map rollcall_count (join_tables (Path ''/bulk/AK/2021-2022_32nd_Legislature/csv'') scenario)
     = [Cell 2, Cell 0] \<and>
   map total_yea (join_tables (Path ''/bulk/AK/2021-2022_32nd_Legislature/csv'') scenario)
     = [Cell 50, Cell 0] \<and>
   map total_nay (join_tables (Path ''/bulk/AK/2021-2022_32nd_Legislature/csv'') scenario)
     = [Cell 9, Cell 0]"
  by code_simp

text \<open>
  \<^verbatim>\<open>rollcall_count\<close> counts the cells of \<^verbatim>\<open>roll_call_id\<close>: a roll-call row without a
  \<^verbatim>\<open>roll_call_id\<close> references bill 10 and its votes are summed, but it is not counted.
\<close>

lemma rollcall_without_id_not_counted:
  "length (filter (\<lambda>x. rc_bill_id x = Some 10) (rollcalls unnumbered_rollcall)) = 1 \<and>
   bill_id (bills unnumbered_rollcall ! 0) = Some 10 \<and>
   rollcall_count (join_tables (Path ''/bulk/AK/s/csv'') unnumbered_rollcall ! 0) = Cell 0 \<and>
   total_yea (join_tables (Path ''/bulk/AK/s/csv'') unnumbered_rollcall ! 0) = Cell 3"
  by code_simp

text \<open>
  The vote totals are sums in \<^verbatim>\<open>int64\<close>: the total of \<open>2\<^sup>6\<^sup>3 - 1\<close> and 1 is \<open>- 2\<^sup>6\<^sup>3\<close>.  With a
  second bill that has no roll call the column goes through \<^verbatim>\<open>float64\<close>, and the total
  \<open>2\<^sup>5\<^sup>3 + 1\<close> of the first bill is written as \<open>2\<^sup>5\<^sup>3\<close>.
\<close>

lemma vote_totals_wrap_and_round:
  "map total_yea (join_tables (Path ''/bulk/AK/s/csv'')
      \<lparr> bills = [\<lparr>bill_id = Some (10::int), other_columns = ''HB1''\<rparr>],
        people = ([] :: int person_row list), sponsors = [], history = [], documents = [],
        rollcalls = [\<lparr>rc_bill_id = Some 10, roll_call_id = Some 7, yea = 9223372036854775807, nay = 0\<rparr>,
                     \<lparr>rc_bill_id = Some 10, roll_call_id = Some 8, yea = 1, nay = 0\<rparr>] \<rparr>)
     = [Cell (- 9223372036854775808)] \<and>
   map total_yea (join_tables (Path ''/bulk/AK/s/csv'')
      \<lparr> bills = [\<lparr>bill_id = Some (10::int), other_columns = ''HB1''\<rparr>,
                 \<lparr>bill_id = Some 20, other_columns = ''SB2''\<rparr>],
        people = ([] :: int person_row list), sponsors = [], history = [], documents = [],
        rollcalls = [\<lparr>rc_bill_id = Some 10, roll_call_id = Some 7, yea = 9007199254740992, nay = 0\<rparr>,
                     \<lparr>rc_bill_id = Some 10, roll_call_id = Some 8, yea = 1, nay = 0\<rparr>] \<rparr>)
     = [Cell 9007199254740992, Cell 0]"
  by code_simp

text \<open>
  C3.  For every bill the four count columns are the numbers of the child rows that
  reference it and the two vote totals are the sums over its roll calls; all six are
  integers, equal to 0 and never null or missing for a bill without child rows.  In the
  scenario's dataset without its document row (a \<^verbatim>\<open>documents.csv\<close> with the header only) no
  bill has a document row, and the result has no \<^verbatim>\<open>document_count\<close> column at all: the
  aggregation of a table without groups has no such column, and the coercion to integers
  with 0 for a missing value is skipped for a column that is not there.  With the document
  row the column holds 1 and 0, and \<^verbatim>\<open>action_count\<close>, whose table has rows, is 0 for the bill
  without history.
\<close>

theorem header_only_documents_table_loses_document_count:
  "map document_count
     (join_tables (Path ''/bulk/AK/2021-2022_32nd_Legislature/csv'') (scenario\<lparr>documents := []\<rparr>))
     = [Missing, Missing] \<and>
   map action_count
     (join_tables (Path ''/bulk/AK/2021-2022_32nd_Legislature/csv'') (scenario\<lparr>documents := []\<rparr>))
     = [Cell 2, Cell 0] \<and>
   map document_count (join_tables (Path ''/bulk/AK/2021-2022_32nd_Legislature/csv'') scenario)
     = [Cell 1, Cell 0]"
  by code_simp

text \<open>
  The \<^verbatim>\<open>primary_sponsor\<close> column when the sponsorship table has a row with a \<^verbatim>\<open>bill_id\<close>: the
  cell written for a bill is the joined name of the first row with \<^verbatim>\<open>position == 1\<close> among
  the rows referencing the bill, in the order of \<^verbatim>\<open>sort_values(["bill_id", "position"])\<close>,
  and is empty when there is no such row.
\<close>

lemma find_filter: "find P xs = (case filter P xs of [] \<Rightarrow> None | x # _ \<Rightarrow> Some x)"
  by (induction xs) auto

lemma primary_sponsor_group:
  "to_csv_cell (sa_primary_sponsor (sponsors_agg_group grp)) =
     (case find (\<lambda>m. position (sponsorship m) = Some 1) grp of
        None \<Rightarrow> []
      | Some m \<Rightarrow> to_csv_cell (joined_name m))"
  by (cases "filter (\<lambda>m. position (sponsorship m) = Some 1) grp")
     (simp_all add: sponsors_agg_group_def Let_def find_filter to_csv_cell_def)

lemma primary_sponsor_of_first_position_1:
  assumes "\<exists>x \<in> set (sponsors t). sp_bill_id x \<noteq> None" and "i < length (bills t)"
    and "merged = sort_key (\<lambda>m. (na_last (sp_bill_id (sponsorship m)), na_last (position (sponsorship m))))
           (merge_people (sponsors t) (people t))"
  shows "\<exists>v. primary_sponsor (join_tables csv_dir t ! i) = Cell v \<and>
     to_csv_cell v =
       (case find (\<lambda>m. position (sponsorship m) = Some 1)
               (filter (\<lambda>m. sp_bill_id (sponsorship m) \<noteq> None \<and>
                           sp_bill_id (sponsorship m) = bill_id (bills t ! i)) merged) of
          None \<Rightarrow> []
        | Some m \<Rightarrow> to_csv_cell (joined_name m))"
proof -
  let ?key = "\<lambda>m. sp_bill_id (sponsorship m)"
  let ?bid = "bill_id (bills t ! i)"
  have keyed: "\<not> (\<forall>r \<in> set merged. ?key r = None)"
    unfolding assms(3) set_sort using merge_people_keyed [THEN iffD2, OF assms(1), of "people t"] by auto
  have agg: "aggregate_sponsors (sponsors t) (people t) = groupby_apply ?key sponsors_agg_group merged"
    by (simp add: aggregate_sponsors_def Let_def assms(3))
  show ?thesis
  proof (cases ?bid)
    case None
    have "filter (\<lambda>m. ?key m \<noteq> None \<and> ?key m = None) merged = []"
      by (induction merged) auto
    with None keyed show ?thesis
      unfolding join_tables_nth(4) [OF assms(2)] agg
      by (simp add: merge_left_apply_None to_csv_cell_def)
  next
    case (Some k)
    have eq: "filter (\<lambda>m. ?key m \<noteq> None \<and> ?key m = Some k) merged = filter (\<lambda>m. ?key m = Some k) merged"
      by (rule filter_cong) auto
    show ?thesis
    proof (cases "\<exists>r \<in> set merged. ?key r = Some k")
      case True
      with keyed show ?thesis
        unfolding join_tables_nth(4) [OF assms(2)] agg Some eq
        by (simp add: merge_left_apply primary_sponsor_group)
    next
      case False
      then have "filter (\<lambda>m. ?key m = Some k) merged = []" by (simp add: filter_empty_conv)
      with False keyed show ?thesis
        unfolding join_tables_nth(4) [OF assms(2)] agg Some eq
        by (simp add: merge_left_apply to_csv_cell_def)
    qed
  qed
qed

text \<open>
  C4.  \<^verbatim>\<open>primary_sponsor\<close> is the name from the first sponsorship row with \<^verbatim>\<open>position == 1\<close>, and
  the empty string when the bill has no such row.  For the scenario's dataset without its
  sponsorship rows (a \<^verbatim>\<open>sponsors.csv\<close> with the header only) no bill has such a row, and the
  result has no \<^verbatim>\<open>primary_sponsor\<close> column and no \<^verbatim>\<open>sponsor_count\<close> column at all; with the
  sponsorship rows the column holds \<^verbatim>\<open>Ada\<close> and the empty string.
\<close>

theorem empty_sponsors_table_loses_primary_sponsor:
  "map primary_sponsor
     (join_tables (Path ''/bulk/AK/2021-2022_32nd_Legislature/csv'') (scenario\<lparr>sponsors := []\<rparr>))
     = [Missing, Missing] \<and>
   map sponsor_count
     (join_tables (Path ''/bulk/AK/2021-2022_32nd_Legislature/csv'') (scenario\<lparr>sponsors := []\<rparr>))
     = [Missing, Missing] \<and>
   map primary_sponsor (join_tables (Path ''/bulk/AK/2021-2022_32nd_Legislature/csv'') scenario)
     = [Cell (Some ''Ada''), Cell (Some [])]"
  by code_simp

end
